theory Spec2Isabelle
  imports Main "HOL-Library.Sublist"
begin

section \<open>compare-pdf.py: page-wise visual comparison of two PDF documents\<close>

text \<open>
  The script composes three external libraries (pdf2image, Pillow, pixelmatch) with
  pathlib, the file system and standard output. The embedding keeps the control flow of
  \<^verbatim>\<open>compare_pdf_pages\<close> and of the \<^verbatim>\<open>__main__\<close> block as they are written and
  makes every effect explicit:
  \<^item> the library calls are the fields of a record \<open>backend\<close>; each may raise, so each
    returns \<open>exn + result\<close>;
  \<^item> the file system is part of a record \<open>world\<close> that every operation takes and
    returns;
  \<^item> every external call is appended to the \<open>trace\<close> of the world, with the exception it
    raised if any, so that the order of the effects can be stated; standard output is the
    \<open>Print\<close> events of the trace.
\<close>

subsection \<open>Data\<close>

text \<open>A path is the tuple of its parts, as \<^verbatim>\<open>pathlib.PurePath.parts\<close> gives it.\<close>

type_synonym path = "string list"

text \<open>\<^verbatim>\<open>Image.size\<close>: width and height in pixels.\<close>

type_synonym size = "nat \<times> nat"

text \<open>
  The exceptions of a run: \<open>External\<close> is whatever a library call raises (a missing or
  invalid PDF, a decode failure), the next four are the \<^verbatim>\<open>OSError\<close>s of the file
  system model, \<open>AttributeError\<close> is a method call on \<^verbatim>\<open>None\<close>,
  \<open>UnicodeEncodeError\<close> is what \<^verbatim>\<open>print\<close> raises when standard output cannot encode
  a character, and \<open>SystemExit\<close> is what \<^verbatim>\<open>sys.exit\<close> raises.
\<close>

datatype exn =
    External string
  | FileExistsError
  | NotADirectoryError
  | FileNotFoundError
  | IsADirectoryError
  | AttributeError
  | UnicodeEncodeError
  | SystemExit int

text \<open>
  The library calls of the script, with the constant arguments of the source fixed:
  \<^item> \<open>be_convert_from_path p\<close> is \<^verbatim>\<open>convert_from_path(p, dpi=100, use_pdftocairo=True)\<close>;
  \<^item> \<open>be_Path s\<close> is the parts of \<^verbatim>\<open>Path(s)\<close>;
  \<^item> \<open>be_size img\<close> is \<^verbatim>\<open>img.size\<close>;
  \<^item> \<open>be_convert img\<close> is \<^verbatim>\<open>img.convert("RGBA")\<close>;
  \<^item> \<open>be_resize img s\<close> is \<^verbatim>\<open>img.resize(s, Image.LANCZOS)\<close>;
  \<^item> \<open>be_new s\<close> is \<^verbatim>\<open>Image.new("RGBA", s)\<close>;
  \<^item> \<open>be_pixelmatch a b d\<close> is \<^verbatim>\<open>pixelmatch(a, b, d, threshold=0.1)\<close>: it returns the
    number of mismatched pixels (a count, so a natural number) and the overlay it has
    drawn into \<open>d\<close>;
  \<^item> \<open>be_alpha_composite a d\<close> is \<^verbatim>\<open>Image.alpha_composite(a, d)\<close>;
  \<^item> \<open>be_stdout_encodes s\<close> says whether the encoding of \<^verbatim>\<open>sys.stdout\<close> can encode the
    string \<open>s\<close>; it is asked for strings that are not ASCII only.
\<close>

record 'img backend =
  be_convert_from_path :: "string \<Rightarrow> exn + 'img list"
  be_Path :: "string \<Rightarrow> path"
  be_size :: "'img \<Rightarrow> size"
  be_convert :: "'img \<Rightarrow> exn + 'img"
  be_resize :: "'img \<Rightarrow> size \<Rightarrow> exn + 'img"
  be_new :: "size \<Rightarrow> exn + 'img"
  be_pixelmatch :: "'img \<Rightarrow> 'img \<Rightarrow> 'img \<Rightarrow> exn + (nat \<times> 'img)"
  be_alpha_composite :: "'img \<Rightarrow> 'img \<Rightarrow> exn + 'img"
  be_stdout_encodes :: "string \<Rightarrow> bool"

text \<open>The external calls a run can make, and a trace entry: the call and what it raised.\<close>

datatype 'img call =
    Convert_from_path string
  | Mkdir path
  | Print string
  | Save 'img path
  | Convert 'img
  | Resize 'img size
  | New size
  | Pixelmatch 'img 'img 'img
  | Alpha_composite 'img 'img

type_synonym 'img event = "'img call \<times> exn option"

text \<open>
  The world of a run: the directories and the files that exist (a file holds the image
  saved into it), and the calls made so far, oldest first.
\<close>

record 'img world =
  dirs :: "path set"
  files :: "path \<rightharpoonup> 'img"
  trace :: "'img event list"

type_synonym ('img, 'a) action = "'img world \<Rightarrow> (exn + 'a) \<times> 'img world"

subsection \<open>Sequencing and external calls\<close>

text \<open>Returning a value; running one statement after another, an exception ending the run.\<close>

definition ret :: "'a \<Rightarrow> ('img, 'a) action" where
  "ret x w = (Inr x, w)"

definition raise :: "exn \<Rightarrow> ('img, 'a) action" where
  "raise e w = (Inl e, w)"

definition seq :: "('img, 'a) action \<Rightarrow> ('a \<Rightarrow> ('img, 'b) action) \<Rightarrow> ('img, 'b) action" where
  "seq m f w = (case m w of (Inl e, w') \<Rightarrow> (Inl e, w') | (Inr x, w') \<Rightarrow> f x w')"

definition raised :: "exn + 'a \<Rightarrow> exn option" where
  "raised r = (case r of Inl e \<Rightarrow> Some e | Inr _ \<Rightarrow> None)"

text \<open>An external call with outcome \<open>r\<close>: the outcome is returned and the call is recorded.\<close>

definition ext :: "'img call \<Rightarrow> exn + 'a \<Rightarrow> ('img, 'a) action" where
  "ext c r w = (r, w\<lparr>trace := trace w @ [(c, raised r)]\<rparr>)"

definition convert_from_path :: "'img backend \<Rightarrow> string \<Rightarrow> ('img, 'img list) action" where
  "convert_from_path be p = ext (Convert_from_path p) (be_convert_from_path be p)"

definition convert :: "'img backend \<Rightarrow> 'img \<Rightarrow> ('img, 'img) action" where
  "convert be img = ext (Convert img) (be_convert be img)"

definition resize :: "'img backend \<Rightarrow> 'img \<Rightarrow> size \<Rightarrow> ('img, 'img) action" where
  "resize be img s = ext (Resize img s) (be_resize be img s)"

definition new :: "'img backend \<Rightarrow> size \<Rightarrow> ('img, 'img) action" where
  "new be s = ext (New s) (be_new be s)"

definition pixelmatch :: "'img backend \<Rightarrow> 'img \<Rightarrow> 'img \<Rightarrow> 'img \<Rightarrow> ('img, nat \<times> 'img) action" where
  "pixelmatch be a b d = ext (Pixelmatch a b d) (be_pixelmatch be a b d)"

definition alpha_composite :: "'img backend \<Rightarrow> 'img \<Rightarrow> 'img \<Rightarrow> ('img, 'img) action" where
  "alpha_composite be a d = ext (Alpha_composite a d) (be_alpha_composite be a d)"

text \<open>
  \<^verbatim>\<open>print(s)\<close>: a string is a list of bytes here (UTF-8), and it is ASCII when every
  byte is below 128. An ASCII string is always written; any other string is written
  when the encoding of standard output can encode it, and otherwise \<^verbatim>\<open>print\<close> raises
  and nothing is written.
\<close>

definition ascii :: "string \<Rightarrow> bool" where
  "ascii s = list_all (\<lambda>c. (of_char c :: nat) < 128) s"

definition print :: "'img backend \<Rightarrow> string \<Rightarrow> ('img, unit) action" where
  "print be s =
     (if ascii s \<or> be_stdout_encodes be s then ext (Print s) (Inr ())
      else ext (Print s) (Inl UnicodeEncodeError))"

text \<open>
  \<^verbatim>\<open>Path(p).mkdir(exist_ok=True, parents=True)\<close>: it raises when \<open>p\<close> or one of its
  parents is a file, and otherwise makes \<open>p\<close> and every missing parent a directory.
\<close>

definition mkdir :: "path \<Rightarrow> ('img, unit) action" where
  "mkdir p w =
     (if files w p \<noteq> None then ext (Mkdir p) (Inl FileExistsError) w
      else if \<exists>q \<in> set (prefixes p). files w q \<noteq> None
        then ext (Mkdir p) (Inl NotADirectoryError) w
      else ext (Mkdir p) (Inr ()) (w\<lparr>dirs := dirs w \<union> set (prefixes p)\<rparr>))"

text \<open>
  \<^verbatim>\<open>img.save(p)\<close>: it raises when the parent of \<open>p\<close> is not a directory (one exception
  when the parent or one of its parents is a file, another when the parent is missing)
  or when \<open>p\<close> is a directory, and otherwise creates or overwrites the file \<open>p\<close>.
\<close>

definition save_error :: "'img world \<Rightarrow> path \<Rightarrow> exn" where
  "save_error w p =
     (if butlast p \<in> dirs w then IsADirectoryError
      else if \<exists>q \<in> set (prefixes (butlast p)). files w q \<noteq> None then NotADirectoryError
      else FileNotFoundError)"

definition save :: "'img \<Rightarrow> path \<Rightarrow> ('img, unit) action" where
  "save img p w =
     (if butlast p \<notin> dirs w \<or> p \<in> dirs w then ext (Save img p) (Inl (save_error w p)) w
      else ext (Save img p) (Inr ()) (w\<lparr>files := (files w)(p \<mapsto> img)\<rparr>))"

subsection \<open>Formatting\<close>

text \<open>\<^verbatim>\<open>str\<close> of a non-negative integer and of a pair of them, as an f-string prints them.\<close>

definition digit :: "nat \<Rightarrow> char" where
  "digit n = ''0123456789'' ! n"

fun str_nat :: "nat \<Rightarrow> string" where
  "str_nat n = (if n < 10 then [digit n] else str_nat (n div 10) @ [digit (n mod 10)])"

declare str_nat.simps [simp del]

definition str_size :: "size \<Rightarrow> string" where
  "str_size s = ''('' @ str_nat (fst s) @ '', '' @ str_nat (snd s) @ '')''"

text \<open>The file name \<^verbatim>\<open>f"diff_page_{i+1}.png"\<close> and the messages of the source.\<close>

definition diff_page :: "nat \<Rightarrow> string" where
  "diff_page i = ''diff_page_'' @ str_nat (i + 1) @ ''.png''"

definition msg_page_count :: "nat \<Rightarrow> nat \<Rightarrow> string" where
  "msg_page_count n1 n2 =
     ''Warning: Page count mismatch! ('' @ str_nat n1 @ '' vs '' @ str_nat n2 @ '')''"

definition msg_missing :: "nat \<Rightarrow> string" where
  "msg_missing i = ''Page '' @ str_nat (i + 1) @ '': Missing in one of the PDFs.''"

definition msg_size :: "nat \<Rightarrow> size \<Rightarrow> size \<Rightarrow> string" where
  "msg_size i s1 s2 =
     ''Page '' @ str_nat (i + 1) @ '': Size mismatch '' @ str_size s1 @ '' vs '' @ str_size s2
       @ ''. Resizing img2.''"

definition msg_found :: "nat \<Rightarrow> nat \<Rightarrow> string" where
  "msg_found i mismatch =
     ''Page '' @ str_nat (i + 1) @ '': Found '' @ str_nat mismatch @ '' pixels of difference.''"

text \<open>The two verdicts of the command line; the leading symbol is its UTF-8 encoding.\<close>

definition msg_differences :: string where
  "msg_differences = [CHR 0xE2, CHR 0x9D, CHR 0x8C] @ '' Differences found.''"

definition msg_no_differences :: string where
  "msg_no_differences = [CHR 0xE2, CHR 0x9C, CHR 0x85] @ '' No significant differences.''"

subsection \<open>\<^verbatim>\<open>compare_pdf_pages\<close>\<close>

text \<open>\<^verbatim>\<open>itertools.zip_longest\<close> with the fill value \<^verbatim>\<open>None\<close>.\<close>

fun zip_longest :: "'a list \<Rightarrow> 'b list \<Rightarrow> ('a option \<times> 'b option) list" where
  "zip_longest [] [] = []"
| "zip_longest (x # xs) [] = (Some x, None) # zip_longest xs []"
| "zip_longest [] (y # ys) = (None, Some y) # zip_longest [] ys"
| "zip_longest (x # xs) (y # ys) = (Some x, Some y) # zip_longest xs ys"

text \<open>\<^verbatim>\<open>img1 or img2\<close>: an image object is true, \<^verbatim>\<open>None\<close> is false.\<close>

definition py_or :: "'a option \<Rightarrow> 'a option \<Rightarrow> 'a option" where
  "py_or a b = (case a of Some x \<Rightarrow> Some x | None \<Rightarrow> b)"

text \<open>
  The body of the \<^verbatim>\<open>for\<close> loop (lines 42 to 65) at index \<open>i\<close>, with the output
  directory \<open>d\<close>; it returns the new value of \<^verbatim>\<open>diff_detected\<close>. In the second branch
  both pages exist, so \<open>the\<close> is applied to \<open>Some\<close> only.
\<close>

definition compare_page ::
  "'img backend \<Rightarrow> path \<Rightarrow> nat \<Rightarrow> 'img option \<times> 'img option \<Rightarrow> bool \<Rightarrow> ('img, bool) action" where
  "compare_page be d i pr diff_detected =
     (if fst pr = None \<or> snd pr = None then
        (case py_or (fst pr) (snd pr) of
           None \<Rightarrow> raise AttributeError
         | Some existing \<Rightarrow>
             seq (save existing (d @ [diff_page i])) (\<lambda>_.
             seq (print be (msg_missing i)) (\<lambda>_.
             ret diff_detected)))
      else
        seq (convert be (the (fst pr))) (\<lambda>img1.
        seq (convert be (the (snd pr))) (\<lambda>img2.
        seq (if be_size be img1 \<noteq> be_size be img2
             then seq (print be (msg_size i (be_size be img1) (be_size be img2))) (\<lambda>_.
                  resize be img2 (be_size be img1))
             else ret img2) (\<lambda>img2.
        seq (new be (be_size be img1)) (\<lambda>diff_img.
        seq (pixelmatch be img1 img2 diff_img) (\<lambda>(mismatch, diff_img).
        if mismatch > 0
        then seq (alpha_composite be img1 diff_img) (\<lambda>highlighted.
             seq (save highlighted (d @ [diff_page i])) (\<lambda>_.
             seq (print be (msg_found i mismatch)) (\<lambda>_.
             ret True)))
        else ret diff_detected))))))"

text \<open>The \<^verbatim>\<open>for\<close> loop over the enumerated pairs, from index \<open>i\<close> on.\<close>

fun compare_loop ::
  "'img backend \<Rightarrow> path \<Rightarrow> nat \<Rightarrow> ('img option \<times> 'img option) list \<Rightarrow> bool
     \<Rightarrow> ('img, bool) action" where
  "compare_loop be d i [] diff_detected = ret diff_detected"
| "compare_loop be d i (pr # prs) diff_detected =
     seq (compare_page be d i pr diff_detected) (compare_loop be d (Suc i) prs)"

definition compare_pdf_pages ::
  "'img backend \<Rightarrow> string \<Rightarrow> string \<Rightarrow> string \<Rightarrow> ('img, bool) action" where
  "compare_pdf_pages be file1 file2 output_dir =
     seq (convert_from_path be file1) (\<lambda>images1.
     seq (convert_from_path be file2) (\<lambda>images2.
     seq (mkdir (be_Path be output_dir)) (\<lambda>_.
     seq (if length images1 \<noteq> length images2
          then seq (print be (msg_page_count (length images1) (length images2))) (\<lambda>_.
               ret True)
          else ret False) (\<lambda>diff_detected.
     compare_loop be (be_Path be output_dir) 0 (zip_longest images1 images2) diff_detected))))"

subsection \<open>The command line\<close>





subsection \<open>What a page amounts to\<close>

text \<open>
  The value lines 50 to 59 compute for a pair of pages, without the world: both pages
  converted, the second resized when the sizes differ, and the pixel difference taken.
  The result is the mismatch count, the converted first image and the overlay.
\<close>

definition pixel_diff :: "'img backend \<Rightarrow> 'img \<Rightarrow> 'img \<Rightarrow> exn + (nat \<times> 'img \<times> 'img)" where
  "pixel_diff be p1 p2 =
     (case be_convert be p1 of Inl e \<Rightarrow> Inl e | Inr img1 \<Rightarrow>
     (case be_convert be p2 of Inl e \<Rightarrow> Inl e | Inr img2 \<Rightarrow>
     (case (if be_size be img1 \<noteq> be_size be img2 then be_resize be img2 (be_size be img1)
            else Inr img2) of Inl e \<Rightarrow> Inl e | Inr img2' \<Rightarrow>
     (case be_new be (be_size be img1) of Inl e \<Rightarrow> Inl e | Inr diff_img \<Rightarrow>
     (case be_pixelmatch be img1 img2' diff_img of Inl e \<Rightarrow> Inl e
      | Inr (mismatch, diff_img') \<Rightarrow> Inr (mismatch, img1, diff_img'))))))"

text \<open>
  The diff result of a page pair, following section 3 of the specification: the image to
  be written for a non-identical page (the page that exists when its counterpart is
  missing, the first image with the overlay composited onto it for a pixel mismatch),
  \<open>None\<close> for an identical page.
\<close>

fun diff_result :: "'img backend \<Rightarrow> 'img option \<times> 'img option \<Rightarrow> exn + 'img option" where
  "diff_result be (None, None) = Inl AttributeError"
| "diff_result be (Some p1, None) = Inr (Some p1)"
| "diff_result be (None, Some p2) = Inr (Some p2)"
| "diff_result be (Some p1, Some p2) =
     (case pixel_diff be p1 p2 of Inl e \<Rightarrow> Inl e
      | Inr (mismatch, img1, diff_img) \<Rightarrow>
          if mismatch > 0
          then (case be_alpha_composite be img1 diff_img of Inl e \<Rightarrow> Inl e
                | Inr highlighted \<Rightarrow> Inr (Some highlighted))
          else Inr None)"

text \<open>A pair of pages that both exist and differ in at least one pixel.\<close>

fun pixel_mismatch :: "'img backend \<Rightarrow> 'img option \<times> 'img option \<Rightarrow> bool" where
  "pixel_mismatch be (Some p1, Some p2) =
     (case pixel_diff be p1 p2 of Inl e \<Rightarrow> False | Inr (mismatch, _) \<Rightarrow> mismatch > 0)"
| "pixel_mismatch be _ = False"

text \<open>The events a run has added to the trace.\<close>

definition new_events :: "'img world \<Rightarrow> 'img world \<Rightarrow> 'img event list" where
  "new_events w w' = drop (length (trace w)) (trace w')"

subsection \<open>Auxiliary descriptions used in the proofs\<close>

text \<open>
  Lines 50 to 59 of the loop body as an action of their own: \<open>compare_page\<close> on two
  existing pages is this action followed by the test of the mismatch count
  (lemma \<open>compare_page_paired\<close>).
\<close>

definition diff_stage :: "'img backend \<Rightarrow> nat \<Rightarrow> 'img \<Rightarrow> 'img \<Rightarrow> ('img, nat \<times> 'img \<times> 'img) action" where
  "diff_stage be i p1 p2 =
        seq (convert be p1) (\<lambda>img1.
        seq (convert be p2) (\<lambda>img2.
        seq (if be_size be img1 \<noteq> be_size be img2
             then seq (print be (msg_size i (be_size be img1) (be_size be img2))) (\<lambda>_.
                  resize be img2 (be_size be img1))
             else ret img2) (\<lambda>img2.
        seq (new be (be_size be img1)) (\<lambda>diff_img.
        seq (pixelmatch be img1 img2 diff_img) (\<lambda>(mismatch, diff_img).
        ret (mismatch, img1, diff_img))))))"

text \<open>
  The calls the loop body may make at index \<open>i\<close> for the pair \<open>pr\<close>, each with the
  arguments it must have: for two existing pages the conversions of the two pages, the
  resize of the converted second page to the size of the converted first one when the
  sizes differ, the blank overlay of the first one's size, the pixel difference of the
  converted first page and the (possibly resized) second, and, for a positive count, the
  composite and its save; for a page without counterpart the save of the page that
  exists and the message.
\<close>

fun page_call :: "'img backend \<Rightarrow> path \<Rightarrow> nat \<Rightarrow> 'img option \<times> 'img option \<Rightarrow> 'img call \<Rightarrow> bool" where
  "page_call be d i (Some p1, Some p2) (Convert img) = (img = p1 \<or> img = p2)"
| "page_call be d i (Some p1, Some p2) (Print s) =
     (case be_convert be p1 of Inl _ \<Rightarrow> False | Inr img1 \<Rightarrow>
     (case be_convert be p2 of Inl _ \<Rightarrow> False | Inr img2 \<Rightarrow>
        be_size be img1 \<noteq> be_size be img2 \<and> s = msg_size i (be_size be img1) (be_size be img2)
        \<or> (case pixel_diff be p1 p2 of Inl _ \<Rightarrow> False
            | Inr (mismatch, _) \<Rightarrow> mismatch > 0 \<and> s = msg_found i mismatch)))"
| "page_call be d i (Some p1, Some p2) (Resize img s) =
     (case be_convert be p1 of Inl _ \<Rightarrow> False | Inr img1 \<Rightarrow>
     (case be_convert be p2 of Inl _ \<Rightarrow> False | Inr img2 \<Rightarrow>
        img = img2 \<and> s = be_size be img1 \<and> be_size be img1 \<noteq> be_size be img2))"
| "page_call be d i (Some p1, Some p2) (New s) =
     (case be_convert be p1 of Inl _ \<Rightarrow> False | Inr img1 \<Rightarrow> s = be_size be img1)"
| "page_call be d i (Some p1, Some p2) (Pixelmatch a b diff_img) =
     (case be_convert be p1 of Inl _ \<Rightarrow> False | Inr img1 \<Rightarrow>
     (case be_convert be p2 of Inl _ \<Rightarrow> False | Inr img2 \<Rightarrow>
        a = img1
        \<and> (if be_size be img1 \<noteq> be_size be img2
           then be_resize be img2 (be_size be img1) = Inr b else b = img2)
        \<and> be_new be (be_size be img1) = Inr diff_img))"
| "page_call be d i (Some p1, Some p2) (Alpha_composite a diff_img) =
     (case pixel_diff be p1 p2 of Inl _ \<Rightarrow> False
      | Inr (mismatch, img1, diff_img') \<Rightarrow> mismatch > 0 \<and> a = img1 \<and> diff_img = diff_img')"
| "page_call be d i (Some p1, Some p2) (Save img p) =
     (p = d @ [diff_page i] \<and> diff_result be (Some p1, Some p2) = Inr (Some img))"
| "page_call be d i (Some p1, None) c =
     (c = Save p1 (d @ [diff_page i]) \<or> c = Print (msg_missing i))"
| "page_call be d i (None, Some p2) c =
     (c = Save p2 (d @ [diff_page i]) \<or> c = Print (msg_missing i))"
| "page_call be d i (Some p1, Some p2) (Convert_from_path s) = False"
| "page_call be d i (Some p1, Some p2) (Mkdir p) = False"
| "page_call be d i (None, None) c = False"

text \<open>
  The world once both documents are rasterized, the output directory \<open>d\<close> is made and
  the page counts \<open>n1\<close>, \<open>n2\<close> are compared: the state in which the loop starts.
\<close>

definition start_world ::
  "string \<Rightarrow> string \<Rightarrow> path \<Rightarrow> nat \<Rightarrow> nat \<Rightarrow> 'img world \<Rightarrow> 'img world" where
  "start_world file1 file2 d n1 n2 w =
     w\<lparr>dirs := dirs w \<union> set (prefixes d),
       trace := trace w @ [(Convert_from_path file1, None), (Convert_from_path file2, None),
           (Mkdir d, None)]
         @ (if n1 \<noteq> n2 then [(Print (msg_page_count n1 n2), None)] else [])\<rparr>"

subsection \<open>A small backend to run the model on\<close>

text \<open>
  Images are numbered. \<^verbatim>\<open>a.pdf\<close> has the pages 1, 2, 3 and \<^verbatim>\<open>b.pdf\<close> the pages 1, 4;
  any other path is not a PDF. Page 4 is 20 by 10 pixels and every other image 10 by 10.
  Two images differ in 7 pixels unless they are the same image. Standard output encodes
  every string.
\<close>

definition example_backend :: "nat backend" where
  "example_backend =
     \<lparr>be_convert_from_path = (\<lambda>p. if p = ''a.pdf'' then Inr [1, 2, 3]
                                    else if p = ''b.pdf'' then Inr [1, 4]
                                    else Inl (External ''PDFPageCountError'')),
      be_Path = (\<lambda>s. [s]),
      be_size = (\<lambda>img. if img = 4 then (20, 10) else (10, 10)),
      be_convert = (\<lambda>img. Inr img),
      be_resize = (\<lambda>img s. Inr (img + 100)),
      be_new = (\<lambda>s. Inr 0),
      be_pixelmatch = (\<lambda>a b d. Inr (if a = b then 0 else 7, d + 1000)),
      be_alpha_composite = (\<lambda>a d. Inr (a + d)),
      be_stdout_encodes = (\<lambda>s. True)\<rparr>"


definition example_world :: "nat world" where
  "example_world = \<lparr>dirs = {[]}, files = Map.empty, trace = []\<rparr>"

section \<open>Basic facts\<close>

lemma seq_ret [simp]: "seq (ret x) f = f x"
  by (rule ext) (simp add: seq_def ret_def)

lemma seq_raise [simp]: "seq (raise e) f = raise e"
  by (rule ext) (simp add: seq_def raise_def)

lemma seq_assoc: "seq (seq m f) g = seq m (\<lambda>x. seq (f x) g)"
  by (rule ext) (simp add: seq_def split: prod.splits sum.splits)

lemma seq_ext_Inl [simp]:
  "seq (ext c (Inl e)) f w = (Inl e, w\<lparr>trace := trace w @ [(c, Some e)]\<rparr>)"
  by (simp add: seq_def ext_def raised_def)

lemma seq_ext_Inr [simp]:
  "seq (ext c (Inr x)) f w = f x (w\<lparr>trace := trace w @ [(c, None)]\<rparr>)"
  by (simp add: seq_def ext_def raised_def)

lemma new_events_append [simp]: "trace w' = trace w @ evs \<Longrightarrow> new_events w w' = evs"
  by (simp add: new_events_def)

lemma ascii_simps [simp]:
  "ascii []"
  "ascii (c # s) \<longleftrightarrow> (of_char c :: nat) < 128 \<and> ascii s"
  "ascii (s @ t) \<longleftrightarrow> ascii s \<and> ascii t"
  by (simp_all add: ascii_def)

lemma ascii_digit: "n < 10 \<Longrightarrow> ascii [digit n]"
proof -
  assume "n < 10"
  then have "digit n \<in> set ''0123456789''"
    unfolding digit_def by (intro nth_mem) simp
  moreover have "ascii ''0123456789''" by simp
  ultimately show ?thesis by (auto simp: ascii_def list_all_iff)
qed

lemma ascii_str_nat [simp]: "ascii (str_nat n)"
proof (induction n rule: str_nat.induct)
  case (1 n)
  show ?case
  proof (cases "n < 10")
    case True
    then show ?thesis by (subst str_nat.simps) (simp add: ascii_digit del: ascii_simps(2))
  next
    case False
    with "1.IH" have "ascii (str_nat (n div 10))" by simp
    moreover have "ascii [digit (n mod 10)]" by (rule ascii_digit) simp
    ultimately show ?thesis using False
      by (subst str_nat.simps) (simp del: ascii_simps(2))
  qed
qed

lemma ascii_messages [simp]:
  "ascii (msg_page_count n1 n2)"
  "ascii (msg_missing i)"
  "ascii (msg_size i s1 s2)"
  "ascii (msg_found i m)"
  by (simp_all add: msg_page_count_def msg_missing_def msg_size_def msg_found_def str_size_def)

lemma print_ascii: "ascii s \<Longrightarrow> print be s = ext (Print s) (Inr ())"
  by (simp add: print_def)

lemmas ext_defs = convert_from_path_def convert_def resize_def new_def pixelmatch_def
  alpha_composite_def print_ascii

lemma save_cases:
  "save img p w =
     (if butlast p \<notin> dirs w \<or> p \<in> dirs w
      then (Inl (save_error w p),
            w\<lparr>trace := trace w @ [(Save img p, Some (save_error w p))]\<rparr>)
      else (Inr (), w\<lparr>files := (files w)(p \<mapsto> img),
                     trace := trace w @ [(Save img p, None)]\<rparr>))"
  by (simp add: save_def ext_def raised_def)

lemma compare_page_paired:
  "compare_page be d i (Some p1, Some p2) dd =
     seq (diff_stage be i p1 p2) (\<lambda>(mismatch, img1, diff_img).
        if mismatch > 0
        then seq (alpha_composite be img1 diff_img) (\<lambda>highlighted.
             seq (save highlighted (d @ [diff_page i])) (\<lambda>_.
             seq (print be (msg_found i mismatch)) (\<lambda>_.
             ret True)))
        else ret dd)"
  by (simp add: compare_page_def diff_stage_def seq_assoc split_def cong: if_cong)

lemma compare_page_missing:
  "compare_page be d i (Some p1, None) dd =
             seq (save p1 (d @ [diff_page i])) (\<lambda>_.
             seq (print be (msg_missing i)) (\<lambda>_.
             ret dd))"
  "compare_page be d i (None, Some p2) dd =
             seq (save p2 (d @ [diff_page i])) (\<lambda>_.
             seq (print be (msg_missing i)) (\<lambda>_.
             ret dd))"
  "compare_page be d i (None, None) dd = raise AttributeError"
  by (simp_all add: compare_page_def py_or_def)

lemma diff_stage_result: "fst (diff_stage be i p1 p2 w) = pixel_diff be p1 p2"
  by (simp add: diff_stage_def pixel_diff_def ext_defs seq_def ext_def ret_def
      split: sum.splits prod.splits)

section \<open>One page\<close>

lemma diff_stage_frame:
  "diff_stage be i p1 p2 w = (r, w') \<Longrightarrow> dirs w' = dirs w \<and> files w' = files w"
  by (auto simp: diff_stage_def ext_defs seq_def ext_def ret_def
      split: sum.splits prod.splits if_splits)

lemma diff_stage_trace:
  "diff_stage be i p1 p2 w = (r, w') \<Longrightarrow>
     \<exists>evs. trace w' = trace w @ evs \<and> evs \<noteq> [] \<and> (\<forall>ev \<in> set (butlast evs). snd ev = None)
       \<and> snd (last evs) = raised r
       \<and> (\<forall>ev \<in> set evs. page_call be d i (Some p1, Some p2) (fst ev))"
  by (auto simp: diff_stage_def ext_defs seq_def ext_def ret_def raised_def
       split: sum.splits prod.splits if_splits)

lemma butlast_snoc_None:
  "(\<forall>ev \<in> set (butlast evs). snd ev = None) \<Longrightarrow> evs \<noteq> [] \<Longrightarrow> snd (last evs) = None
    \<Longrightarrow> \<forall>ev \<in> set evs. snd ev = (None :: exn option)"
  by (cases evs rule: rev_cases) auto

lemma tail_cases:
  assumes "seq (alpha_composite be a dimg) (\<lambda>highlighted.
             seq (save highlighted p) (\<lambda>_.
             seq (print be (msg_found i m)) (\<lambda>_. ret True))) w1 = (r, w')"
  shows "(\<exists>e. be_alpha_composite be a dimg = Inl e \<and> r = Inl e
            \<and> w' = w1\<lparr>trace := trace w1 @ [(Alpha_composite a dimg, Some e)]\<rparr>)
       \<or> (\<exists>h e. be_alpha_composite be a dimg = Inr h \<and> r = Inl e
            \<and> w' = w1\<lparr>trace := trace w1 @ [(Alpha_composite a dimg, None), (Save h p, Some e)]\<rparr>)
       \<or> (\<exists>h. be_alpha_composite be a dimg = Inr h \<and> r = Inr True
            \<and> butlast p \<in> dirs w1 \<and> p \<notin> dirs w1
            \<and> w' = w1\<lparr>files := (files w1)(p \<mapsto> h),
                 trace := trace w1 @ [(Alpha_composite a dimg, None), (Save h p, None),
                     (Print (msg_found i m), None)]\<rparr>)"
  using assms
  by (cases "be_alpha_composite be a dimg")
     (auto simp: alpha_composite_def print_ascii seq_def ext_def ret_def raised_def save_cases
            split: if_splits)

lemma page_any_paired:
  assumes run: "compare_page be d i (Some p1, Some p2) dd w = (r, w')"
  shows "dirs w' = dirs w \<and> (\<forall>p. p \<noteq> d @ [diff_page i] \<longrightarrow> files w' p = files w p)
    \<and> (\<exists>evs. trace w' = trace w @ evs \<and> evs \<noteq> []
        \<and> (\<forall>ev \<in> set (butlast evs). snd ev = None)
        \<and> snd (last evs) = raised r
        \<and> (\<forall>ev \<in> set evs. page_call be d i (Some p1, Some p2) (fst ev)))"
proof -
  let ?pr = "(Some p1, Some p2)"
  obtain r1 w1 where st: "diff_stage be i p1 p2 w = (r1, w1)"
    by (cases "diff_stage be i p1 p2 w")
  from diff_stage_frame [OF st] have fr: "dirs w1 = dirs w" "files w1 = files w" by simp_all
  from diff_stage_trace [OF st, of d] obtain evs1 where
    tr: "trace w1 = trace w @ evs1" "evs1 \<noteq> []" "\<forall>ev \<in> set (butlast evs1). snd ev = None"
      "snd (last evs1) = raised r1" "\<forall>ev \<in> set evs1. page_call be d i ?pr (fst ev)"
    by blast
  from diff_stage_result [of be i p1 p2 w] st have pd: "pixel_diff be p1 p2 = r1" by simp
  show ?thesis
  proof (cases r1)
    case (Inl e)
    with run st have "r = Inl e" "w' = w1" by (simp_all add: compare_page_paired seq_def)
    with fr tr Inl show ?thesis by (simp add: raised_def)
  next
    case (Inr v)
    obtain m a dimg where v: "v = (m, a, dimg)" by (cases v)
    have all1: "\<forall>ev \<in> set evs1. snd ev = None"
      using butlast_snoc_None [OF tr(3) tr(2)] tr(4) Inr by (simp add: raised_def)
    show ?thesis
    proof (cases "m > 0")
      case False
      with run st Inr v have "r = Inr dd" "w' = w1"
        by (auto simp: compare_page_paired seq_def ret_def)
      with fr tr Inr show ?thesis by (simp add: raised_def)
    next
      case True
      let ?p = "d @ [diff_page i]"
      from True run st Inr v have run2: "seq (alpha_composite be a dimg) (\<lambda>highlighted.
             seq (save highlighted ?p) (\<lambda>_.
             seq (print be (msg_found i m)) (\<lambda>_. ret True))) w1 = (r, w')"
        by (simp add: compare_page_paired seq_def)
      have pc1: "page_call be d i ?pr (Alpha_composite a dimg)"
        using pd Inr v True by simp
      have pc2: "page_call be d i ?pr (Print (msg_found i m))"
        using pd Inr v True by (auto simp: pixel_diff_def split: sum.splits)
      have pc3: "page_call be d i ?pr (Save h ?p)" if "be_alpha_composite be a dimg = Inr h" for h
        using pd Inr v True that by simp
      from tail_cases [OF run2] show ?thesis
      proof (elim disjE exE conjE)
        fix e assume "be_alpha_composite be a dimg = Inl e" "r = Inl e"
          and w': "w' = w1\<lparr>trace := trace w1 @ [(Alpha_composite a dimg, Some e)]\<rparr>"
        then show ?thesis using fr tr(1) all1 tr(5) pc1
          by (simp add: raised_def butlast_append)
      next
        fix h e assume "be_alpha_composite be a dimg = Inr h" "r = Inl e"
          and w': "w' = w1\<lparr>trace := trace w1 @ [(Alpha_composite a dimg, None),
              (Save h ?p, Some e)]\<rparr>"
        then show ?thesis using fr tr(1) all1 tr(5) pc1 pc3
          by (simp add: raised_def butlast_append)
      next
        fix h assume "be_alpha_composite be a dimg = Inr h" "r = Inr True"
          and w': "w' = w1\<lparr>files := (files w1)(?p \<mapsto> h),
                 trace := trace w1 @ [(Alpha_composite a dimg, None), (Save h ?p, None), 
                     (Print (msg_found i m), None)]\<rparr>"
        then show ?thesis using fr tr(1) all1 tr(5) pc1 pc2 pc3
          by (simp add: raised_def butlast_append)
      qed
    qed
  qed
qed

lemma digit_inj:
  assumes "m < 10" "n < 10" "digit m = digit n"
  shows "m = n"
proof -
  have "distinct ''0123456789''" by simp
  moreover have "m < length ''0123456789''" "n < length ''0123456789''" using assms by simp_all
  ultimately show ?thesis using assms(3) unfolding digit_def
    by (simp only: nth_eq_iff_index_eq)
qed

lemma str_nat_not_Nil [simp]: "str_nat n \<noteq> []" "[] \<noteq> str_nat n"
  by (subst str_nat.simps, simp)+

lemma str_nat_inj: "str_nat m = str_nat n \<Longrightarrow> m = n"
proof (induction m arbitrary: n rule: str_nat.induct)
  case (1 m)
  show ?case
  proof (cases "m < 10")
    case True
    show ?thesis
    proof (cases "n < 10")
      case n: True
      with True "1.prems" show ?thesis
        by (simp add: str_nat.simps [of m] str_nat.simps [of n] digit_inj)
    next
      case False
      with True "1.prems" show ?thesis
        by (simp add: str_nat.simps [of m] str_nat.simps [of n])
    qed
  next
    case False
    show ?thesis
    proof (cases "n < 10")
      case True
      with False "1.prems" show ?thesis
        by (simp add: str_nat.simps [of m] str_nat.simps [of n])
    next
      case n: False
      with False "1.prems" have eq: "str_nat (m div 10) = str_nat (n div 10)"
        and dg: "digit (m mod 10) = digit (n mod 10)"
        by (simp_all add: str_nat.simps [of m] str_nat.simps [of n])
      from "1.IH" [OF False eq] have "m div 10 = n div 10" .
      moreover from dg have "m mod 10 = n mod 10" by (intro digit_inj) simp_all
      ultimately show ?thesis by (metis div_mult_mod_eq)
    qed
  qed
qed

lemma diff_page_inj [simp]: "diff_page i = diff_page j \<longleftrightarrow> i = j"
  by (auto simp: diff_page_def dest: str_nat_inj)

lemma page_any:
  assumes run: "compare_page be d i pr dd w = (r, w')"
  shows "dirs w' = dirs w \<and> (\<forall>p. p \<noteq> d @ [diff_page i] \<longrightarrow> files w' p = files w p)
    \<and> (\<exists>evs. trace w' = trace w @ evs
        \<and> (\<forall>ev \<in> set (butlast evs). snd ev = None)
        \<and> (pr = (None, None) \<and> evs = [] \<and> r = Inl AttributeError
            \<or> evs \<noteq> [] \<and> snd (last evs) = raised r)
        \<and> (\<forall>ev \<in> set evs. page_call be d i pr (fst ev)))"
proof -
  obtain o1 o2 where pr: "pr = (o1, o2)" by (cases pr)
  show ?thesis
  proof (cases o1)
    case None
    show ?thesis
    proof (cases o2)
      case n2: None
      with None pr run show ?thesis by (simp add: compare_page_missing raise_def)
    next
      case (Some p2)
      with None pr run show ?thesis
        by (auto simp: compare_page_missing seq_def save_cases print_ascii ext_def ret_def
            raised_def
            split: if_splits)
    qed
  next
    case (Some p1)
    show ?thesis
    proof (cases o2)
      case None
      with Some pr run show ?thesis
        by (auto simp: compare_page_missing seq_def save_cases print_ascii ext_def ret_def
            raised_def
            split: if_splits)
    next
      case s2: (Some p2)
      with Some pr run page_any_paired [of be d i p1 p2 dd w r w'] show ?thesis by auto
    qed
  qed
qed

lemma diff_stage_success:
  assumes "diff_stage be i p1 p2 w = (Inr (m, a, dimg), w')"
  shows "(Convert p1, None) \<in> set (new_events w w') \<and> (Convert p2, None) \<in> set (new_events w w')
    \<and> (\<exists>b' d0. (Pixelmatch a b' d0, None) \<in> set (new_events w w'))"
  using assms
  by (auto simp: diff_stage_def ext_defs seq_def ext_def ret_def raised_def new_events_def
       split: sum.splits prod.splits if_splits)

lemma new_events_trans:
  "trace w1 = trace w @ evs1 \<Longrightarrow> trace w2 = trace w1 @ evs2
    \<Longrightarrow> new_events w w2 = new_events w w1 @ new_events w1 w2"
  by (simp add: new_events_def)

lemma page_success_paired:
  assumes run: "compare_page be d i (Some p1, Some p2) dd w = (Inr b, w')"
  shows "\<exists>res. diff_result be (Some p1, Some p2) = Inr res
     \<and> b = (dd \<or> pixel_mismatch be (Some p1, Some p2))
     \<and> files w' = (case res of None \<Rightarrow> files w | Some h \<Rightarrow> (files w)(d @ [diff_page i] \<mapsto> h))
     \<and> (\<forall>h. res = Some h \<longrightarrow> d \<in> dirs w \<and> d @ [diff_page i] \<notin> dirs w
            \<and> (Save h (d @ [diff_page i]), None) \<in> set (new_events w w'))
     \<and> (Convert p1, None) \<in> set (new_events w w') \<and> (Convert p2, None) \<in> set (new_events w w')
     \<and> (\<exists>a b' d0. (Pixelmatch a b' d0, None) \<in> set (new_events w w')
            \<and> page_call be d i (Some p1, Some p2) (Pixelmatch a b' d0))"
proof -
  obtain r1 w1 where st: "diff_stage be i p1 p2 w = (r1, w1)"
    by (cases "diff_stage be i p1 p2 w")
  from diff_stage_frame [OF st] have fr: "dirs w1 = dirs w" "files w1 = files w" by simp_all
  from diff_stage_trace [OF st, of d] obtain evs1 where tr: "trace w1 = trace w @ evs1"
    and pc: "\<forall>ev \<in> set evs1. page_call be d i (Some p1, Some p2) (fst ev)"
    by blast
  from diff_stage_result [of be i p1 p2 w] st have pd: "pixel_diff be p1 p2 = r1" by simp
  from run st obtain m a dimg where r1: "r1 = Inr (m, a, dimg)"
    by (cases r1) (auto simp: compare_page_paired seq_def)
  from diff_stage_success [OF st [unfolded r1]] tr
  have ev1: "(Convert p1, None) \<in> set evs1" "(Convert p2, None) \<in> set evs1"
    and "\<exists>b' d0. (Pixelmatch a b' d0, None) \<in> set evs1"
    by simp_all
  then obtain b' d0 where pm: "(Pixelmatch a b' d0, None) \<in> set evs1" by blast
  with pc have "page_call be d i (Some p1, Some p2) (fst (Pixelmatch a b' d0, None :: exn option))"
    by blast
  with pm have ev2: "\<exists>a b' d0. (Pixelmatch a b' d0, None) \<in> set evs1
        \<and> page_call be d i (Some p1, Some p2) (Pixelmatch a b' d0)"
    unfolding fst_conv by blast
  show ?thesis
  proof (cases "m > 0")
    case False
    with run st r1 have "b = dd" "w' = w1"
      by (auto simp: compare_page_paired seq_def ret_def)
    with fr tr pd r1 False ev1 ev2 show ?thesis by (simp del: page_call.simps)
  next
    case True
    let ?p = "d @ [diff_page i]"
    from True run st r1 have run2: "seq (alpha_composite be a dimg) (\<lambda>highlighted.
             seq (save highlighted ?p) (\<lambda>_.
             seq (print be (msg_found i m)) (\<lambda>_. ret True))) w1 = (Inr b, w')"
      by (simp add: compare_page_paired seq_def)
    from tail_cases [OF run2] obtain h where h: "be_alpha_composite be a dimg = Inr h" "b"
      "d \<in> dirs w1" "?p \<notin> dirs w1"
      "w' = w1\<lparr>files := (files w1)(?p \<mapsto> h),
                 trace := trace w1 @ [(Alpha_composite a dimg, None), (Save h ?p, None),
                     (Print (msg_found i m), None)]\<rparr>"
      by auto
    with fr tr pd r1 True ev1 ev2 show ?thesis by (simp del: page_call.simps)
  qed
qed

lemma page_success:
  assumes run: "compare_page be d i pr dd w = (Inr b, w')"
  shows "\<exists>res. diff_result be pr = Inr res \<and> b = (dd \<or> pixel_mismatch be pr)
     \<and> files w' = (case res of None \<Rightarrow> files w | Some h \<Rightarrow> (files w)(d @ [diff_page i] \<mapsto> h))
     \<and> (\<forall>h. res = Some h \<longrightarrow> d \<in> dirs w \<and> d @ [diff_page i] \<notin> dirs w
            \<and> (Save h (d @ [diff_page i]), None) \<in> set (new_events w w'))
     \<and> (fst pr = None \<or> snd pr = None \<longrightarrow>
            (Print (msg_missing i), None) \<in> set (new_events w w'))
     \<and> (\<forall>p1 p2. pr = (Some p1, Some p2) \<longrightarrow>
            (Convert p1, None) \<in> set (new_events w w') \<and> (Convert p2, None) \<in> set (new_events w w')
            \<and> (\<exists>a b' d0. (Pixelmatch a b' d0, None) \<in> set (new_events w w')
                   \<and> page_call be d i pr (Pixelmatch a b' d0)))"
proof -
  obtain o1 o2 where pr: "pr = (o1, o2)" by (cases pr)
  show ?thesis
  proof (cases o1)
    case None
    show ?thesis
    proof (cases o2)
      case n2: None
      with None pr run show ?thesis by (simp add: compare_page_missing raise_def)
    next
      case (Some p2)
      with None pr run show ?thesis
        by (auto simp: compare_page_missing seq_def save_cases print_ascii ext_def ret_def
            raised_def
            new_events_def split: if_splits)
    qed
  next
    case (Some p1)
    show ?thesis
    proof (cases o2)
      case None
      with Some pr run show ?thesis
        by (auto simp: compare_page_missing seq_def save_cases print_ascii ext_def ret_def
            raised_def
            new_events_def split: if_splits)
    next
      case s2: (Some p2)
      with Some pr run page_success_paired [of be d i p1 p2 dd w b w'] show ?thesis by simp
    qed
  qed
qed

lemma page_rerun:
  assumes res: "diff_result be pr = Inr res"
    and ok: "res \<noteq> None \<longrightarrow> d \<in> dirs w \<and> d @ [diff_page i] \<notin> dirs w"
  shows "\<exists>b w'. compare_page be d i pr dd w = (Inr b, w')"
proof -
  obtain o1 o2 where pr: "pr = (o1, o2)" by (cases pr)
  show ?thesis
  proof (cases o1)
    case None
    show ?thesis
    proof (cases o2)
      case n2: None
      with None pr res show ?thesis by simp
    next
      case (Some p2)
      with None pr res ok show ?thesis
        by (auto simp: compare_page_missing seq_def save_cases print_ascii ext_def ret_def
            raised_def)
    qed
  next
    case (Some p1)
    show ?thesis
    proof (cases o2)
      case None
      with Some pr res ok show ?thesis
        by (auto simp: compare_page_missing seq_def save_cases print_ascii ext_def ret_def
            raised_def)
    next
      case s2: (Some p2)
      obtain r1 w1 where st: "diff_stage be i p1 p2 w = (r1, w1)"
        by (cases "diff_stage be i p1 p2 w")
      from diff_stage_frame [OF st] have fr: "dirs w1 = dirs w" by simp
      from diff_stage_result [of be i p1 p2 w] st have pd: "pixel_diff be p1 p2 = r1" by simp
      from res pr Some s2 pd obtain m a dimg where r1: "r1 = Inr (m, a, dimg)"
        by (cases r1) auto
      show ?thesis
      proof (cases "m > 0")
        case False
        with st r1 pr Some s2 show ?thesis
          by (simp add: compare_page_paired seq_def ret_def)
      next
        case True
        with res pr Some s2 pd r1 obtain h where h: "be_alpha_composite be a dimg = Inr h"
          "res = Some h"
          by (cases "be_alpha_composite be a dimg") auto
        with ok fr True st r1 pr Some s2 show ?thesis
          by (auto simp: compare_page_paired seq_def alpha_composite_def save_cases print_ascii
              ext_def ret_def raised_def)
      qed
    qed
  qed
qed

section \<open>The loop\<close>

lemma page_success_events:
  assumes "compare_page be d i pr dd w = (Inr b, w')"
  shows "dirs w' = dirs w" 
    and "\<exists>evs. trace w' = trace w @ evs \<and> (\<forall>ev \<in> set evs. snd ev = None)"
proof -
  from page_any [OF assms] obtain evs where e: "dirs w' = dirs w" "trace w' = trace w @ evs"
    "\<forall>ev \<in> set (butlast evs). snd ev = None" "evs \<noteq> []" "snd (last evs) = None"
    by (auto simp: raised_def)
  from butlast_snoc_None [OF e(3,4,5)] e(2)
  show "\<exists>evs. trace w' = trace w @ evs \<and> (\<forall>ev \<in> set evs. snd ev = None)" by blast
  from e show "dirs w' = dirs w" by simp
qed

lemma loop_any:
  "compare_loop be d i prs dd w = (r, w') \<Longrightarrow>
   dirs w' = dirs w
   \<and> (\<forall>p. (\<forall>k<length prs. p \<noteq> d @ [diff_page (i + k)]) \<longrightarrow> files w' p = files w p)
   \<and> (\<exists>evs. trace w' = trace w @ evs
       \<and> (\<forall>ev \<in> set (butlast evs). snd ev = None)
       \<and> ((\<exists>b. r = Inr b) \<longrightarrow> (\<forall>ev \<in> set evs. snd ev = None))
       \<and> ((None, None) \<notin> set prs \<longrightarrow> (\<forall>e. r = Inl e \<longrightarrow> evs \<noteq> [] \<and> snd (last evs) = Some e))
       \<and> (\<forall>ev \<in> set evs. \<exists>k<length prs. page_call be d (i + k) (prs ! k) (fst ev)))"
proof (induction prs arbitrary: i dd w)
  case Nil
  then show ?case by (auto simp: ret_def)
next
  case (Cons pr prs)
  obtain r1 w1 where pg: "compare_page be d i pr dd w = (r1, w1)"
    by (cases "compare_page be d i pr dd w")
  from page_any [OF pg] obtain evs1 where p1: "dirs w1 = dirs w"
    "\<forall>p. p \<noteq> d @ [diff_page i] \<longrightarrow> files w1 p = files w p"
    "trace w1 = trace w @ evs1" "\<forall>ev \<in> set (butlast evs1). snd ev = None"
    "pr = (None, None) \<and> evs1 = [] \<and> r1 = Inl AttributeError
        \<or> evs1 \<noteq> [] \<and> snd (last evs1) = raised r1"
    "\<forall>ev \<in> set evs1. page_call be d i pr (fst ev)"
    by blast
  have pc1: "\<forall>ev \<in> set evs1. \<exists>k<length (pr # prs). page_call be d (i + k) ((pr # prs) ! k) (fst ev)"
    using p1(6) by (intro ballI exI [of _ 0]) simp
  show ?case
  proof (cases r1)
    case (Inl e)
    with Cons.prems pg have "r = Inl e" "w' = w1" by (simp_all add: seq_def)
    with p1 pc1 Inl show ?thesis by (auto simp: raised_def simp del: page_call.simps)
  next
    case (Inr dd1)
    with Cons.prems pg have lp: "compare_loop be d (Suc i) prs dd1 w1 = (r, w')"
      by (simp add: seq_def)
    from p1(4,5) Inr have all1: "\<forall>ev \<in> set evs1. snd ev = None"
      using butlast_snoc_None [of evs1] by (auto simp: raised_def)
    from Cons.IH [OF lp] obtain evs2 where p2: "dirs w' = dirs w1"
      "\<forall>p. (\<forall>k<length prs. p \<noteq> d @ [diff_page (Suc i + k)]) \<longrightarrow> files w' p = files w1 p"
      "trace w' = trace w1 @ evs2" "\<forall>ev \<in> set (butlast evs2). snd ev = None"
      "(\<exists>b. r = Inr b) \<longrightarrow> (\<forall>ev \<in> set evs2. snd ev = None)"
      "(None, None) \<notin> set prs \<longrightarrow> (\<forall>e. r = Inl e \<longrightarrow> evs2 \<noteq> [] \<and> snd (last evs2) = Some e)"
      "\<forall>ev \<in> set evs2. \<exists>k<length prs. page_call be d (Suc i + k) (prs ! k) (fst ev)"
      by blast
    have pc2: "\<forall>ev \<in> set evs2. \<exists>k<length (pr # prs).
        page_call be d (i + k) ((pr # prs) ! k) (fst ev)"
    proof
      fix ev assume "ev \<in> set evs2"
      with p2(7) obtain k where "k < length prs" "page_call be d (Suc i + k) (prs ! k) (fst ev)"
        by blast
      then show "\<exists>k<length (pr # prs). page_call be d (i + k) ((pr # prs) ! k) (fst ev)"
        by (intro exI [of _ "Suc k"]) simp
    qed
    have fr: "\<forall>p. (\<forall>k<length (pr # prs). p \<noteq> d @ [diff_page (i + k)]) \<longrightarrow> files w' p = files w p"
    proof (intro allI impI)
      fix p assume a: "\<forall>k<length (pr # prs). p \<noteq> d @ [diff_page (i + k)]"
      then have "p \<noteq> d @ [diff_page i]" by force
      moreover from a have "\<forall>k<length prs. p \<noteq> d @ [diff_page (Suc i + k)]" by force
      ultimately show "files w' p = files w p" using p1(2) p2(2) by simp
    qed
    have bl: "\<forall>ev \<in> set (butlast (evs1 @ evs2)). snd ev = None"
      using all1 p2(4) by (auto simp: butlast_append dest: in_set_butlastD)
    have tr: "trace w' = trace w @ (evs1 @ evs2)" using p1(3) p2(3) by simp
    have a3: "(\<exists>b. r = Inr b) \<longrightarrow> (\<forall>ev \<in> set (evs1 @ evs2). snd ev = None)"
      using all1 p2(5) by auto
    have a4: "(None, None) \<notin> set (pr # prs) \<longrightarrow>
        (\<forall>e. r = Inl e \<longrightarrow> evs1 @ evs2 \<noteq> [] \<and> snd (last (evs1 @ evs2)) = Some e)"
      using p2(6) by auto
    have a5: "\<forall>ev \<in> set (evs1 @ evs2). \<exists>k<length (pr # prs).
        page_call be d (i + k) ((pr # prs) ! k) (fst ev)"
      using pc1 pc2 by (simp only: set_append Un_iff) blast
    from p1(1) p2(1) fr tr bl a3 a4 a5 show ?thesis by blast
  qed
qed

lemma loop_success:
  "compare_loop be d i prs dd w = (Inr b, w') \<Longrightarrow>
   b = (dd \<or> (\<exists>k<length prs. pixel_mismatch be (prs ! k)))
   \<and> (\<forall>k<length prs. \<exists>res. diff_result be (prs ! k) = Inr res
        \<and> files w' (d @ [diff_page (i + k)]) =
            (case res of None \<Rightarrow> files w (d @ [diff_page (i + k)]) | Some h \<Rightarrow> Some h)
        \<and> (\<forall>h. res = Some h \<longrightarrow> d \<in> dirs w \<and> d @ [diff_page (i + k)] \<notin> dirs w
              \<and> (Save h (d @ [diff_page (i + k)]), None) \<in> set (new_events w w'))
        \<and> (fst (prs ! k) = None \<or> snd (prs ! k) = None \<longrightarrow>
              (Print (msg_missing (i + k)), None) \<in> set (new_events w w'))
        \<and> (\<forall>p1 p2. prs ! k = (Some p1, Some p2) \<longrightarrow>
              (Convert p1, None) \<in> set (new_events w w')
              \<and> (Convert p2, None) \<in> set (new_events w w')
              \<and> (\<exists>a b' d0. (Pixelmatch a b' d0, None) \<in> set (new_events w w')
                     \<and> page_call be d (i + k) (prs ! k) (Pixelmatch a b' d0))))"
proof (induction prs arbitrary: i dd w b)
  case Nil
  then show ?case by (auto simp: ret_def)
next
  case (Cons pr prs)
  obtain r1 w1 where pg: "compare_page be d i pr dd w = (r1, w1)"
    by (cases "compare_page be d i pr dd w")
  with Cons.prems obtain dd1 where r1: "r1 = Inr dd1"
    and lp: "compare_loop be d (Suc i) prs dd1 w1 = (Inr b, w')"
    by (cases r1) (auto simp: seq_def)
  note pg' = pg [unfolded r1]
  from page_success_events [OF pg'] obtain evs1 where e1: "dirs w1 = dirs w"
    "trace w1 = trace w @ evs1" by blast
  from loop_any [OF lp] obtain evs2 where e2: "dirs w' = dirs w1"
    "\<forall>p. (\<forall>k<length prs. p \<noteq> d @ [diff_page (Suc i + k)]) \<longrightarrow> files w' p = files w1 p"
    "trace w' = trace w1 @ evs2" by blast
  from page_any [OF pg'] have f1: "\<forall>p. p \<noteq> d @ [diff_page i] \<longrightarrow> files w1 p = files w p"
    by blast
  have ne: "new_events w w' = new_events w w1 @ new_events w1 w'"
    using e1(2) e2(3) by (rule new_events_trans)
  from page_success [OF pg'] obtain res0 where s1: "diff_result be pr = Inr res0"
    "dd1 = (dd \<or> pixel_mismatch be pr)"
    "files w1 = (case res0 of None \<Rightarrow> files w | Some h \<Rightarrow> (files w)(d @ [diff_page i] \<mapsto> h))"
    "\<forall>h. res0 = Some h \<longrightarrow> d \<in> dirs w \<and> d @ [diff_page i] \<notin> dirs w
            \<and> (Save h (d @ [diff_page i]), None) \<in> set (new_events w w1)"
    "fst pr = None \<or> snd pr = None \<longrightarrow> (Print (msg_missing i), None) \<in> set (new_events w w1)"
    "\<forall>p1 p2. pr = (Some p1, Some p2) \<longrightarrow>
            (Convert p1, None) \<in> set (new_events w w1) \<and> (Convert p2, None) \<in> set (new_events w w1)
            \<and> (\<exists>a b' d0. (Pixelmatch a b' d0, None) \<in> set (new_events w w1)
                   \<and> page_call be d i pr (Pixelmatch a b' d0))"
    by (elim exE conjE) (rule that; assumption)
  have mono1: "x \<in> set (new_events w w')" if "x \<in> set (new_events w w1)" for x
    using that ne by simp
  have mono2: "x \<in> set (new_events w w')" if "x \<in> set (new_events w1 w')" for x
    using that ne by simp
  note IH = Cons.IH [OF lp]
  have b: "b = (dd \<or> (\<exists>k<length (pr # prs). pixel_mismatch be ((pr # prs) ! k)))"
  proof -
    from IH have "b = (dd1 \<or> (\<exists>k<length prs. pixel_mismatch be (prs ! k)))"
      by (rule conjunct1)
    moreover have "(\<exists>k<length (pr # prs). pixel_mismatch be ((pr # prs) ! k))
       = (pixel_mismatch be pr \<or> (\<exists>k<length prs. pixel_mismatch be (prs ! k)))"
      by (auto simp: less_Suc_eq_0_disj)
    ultimately show ?thesis using s1(2) by blast
  qed
  have pages: "\<exists>res. diff_result be ((pr # prs) ! k) = Inr res
        \<and> files w' (d @ [diff_page (i + k)]) =
            (case res of None \<Rightarrow> files w (d @ [diff_page (i + k)]) | Some h \<Rightarrow> Some h)
        \<and> (\<forall>h. res = Some h \<longrightarrow> d \<in> dirs w \<and> d @ [diff_page (i + k)] \<notin> dirs w
              \<and> (Save h (d @ [diff_page (i + k)]), None) \<in> set (new_events w w'))
        \<and> (fst ((pr # prs) ! k) = None \<or> snd ((pr # prs) ! k) = None \<longrightarrow>
              (Print (msg_missing (i + k)), None) \<in> set (new_events w w'))
        \<and> (\<forall>p1 p2. (pr # prs) ! k = (Some p1, Some p2) \<longrightarrow>
              (Convert p1, None) \<in> set (new_events w w')
              \<and> (Convert p2, None) \<in> set (new_events w w')
              \<and> (\<exists>a b' d0. (Pixelmatch a b' d0, None) \<in> set (new_events w w')
                     \<and> page_call be d (i + k) ((pr # prs) ! k) (Pixelmatch a b' d0)))"
    if k: "k < length (pr # prs)" for k
  proof (cases k)
    case 0
    have "files w' (d @ [diff_page i]) = files w1 (d @ [diff_page i])"
      using e2(2) by simp
    also have "\<dots> = (case res0 of None \<Rightarrow> files w (d @ [diff_page i]) | Some h \<Rightarrow> Some h)"
      using s1(3) by (cases res0) simp_all
    finally have fl: "files w' (d @ [diff_page i])
        = (case res0 of None \<Rightarrow> files w (d @ [diff_page i]) | Some h \<Rightarrow> Some h)" .
    have c3: "\<forall>h. res0 = Some h \<longrightarrow> d \<in> dirs w \<and> d @ [diff_page i] \<notin> dirs w
              \<and> (Save h (d @ [diff_page i]), None) \<in> set (new_events w w')"
      using s1(4) mono1 by blast
    have c4: "fst pr = None \<or> snd pr = None \<longrightarrow>
              (Print (msg_missing i), None) \<in> set (new_events w w')"
      using s1(5) mono1 by blast
    have c5: "\<forall>p1 p2. pr = (Some p1, Some p2) \<longrightarrow>
              (Convert p1, None) \<in> set (new_events w w')
              \<and> (Convert p2, None) \<in> set (new_events w w')
              \<and> (\<exists>a b' d0. (Pixelmatch a b' d0, None) \<in> set (new_events w w')
                     \<and> page_call be d i pr (Pixelmatch a b' d0))"
      using s1(6) mono1 by blast
    show ?thesis unfolding 0 nth_Cons_0 add_0_right
      using s1(1) fl c3 c4 c5 by (intro exI [of _ res0] conjI)
  next
    case (Suc k')
    with k have k': "k' < length prs" by simp
    from IH [THEN conjunct2, THEN spec, THEN mp, OF k'] obtain res where
      s2: "diff_result be (prs ! k') = Inr res"
      "files w' (d @ [diff_page (Suc i + k')]) =
            (case res of None \<Rightarrow> files w1 (d @ [diff_page (Suc i + k')]) | Some h \<Rightarrow> Some h)"
      "\<forall>h. res = Some h \<longrightarrow> d \<in> dirs w1 \<and> d @ [diff_page (Suc i + k')] \<notin> dirs w1
              \<and> (Save h (d @ [diff_page (Suc i + k')]), None) \<in> set (new_events w1 w')"
      "fst (prs ! k') = None \<or> snd (prs ! k') = None \<longrightarrow>
              (Print (msg_missing (Suc i + k')), None) \<in> set (new_events w1 w')"
      "\<forall>p1 p2. prs ! k' = (Some p1, Some p2) \<longrightarrow>
              (Convert p1, None) \<in> set (new_events w1 w')
              \<and> (Convert p2, None) \<in> set (new_events w1 w')
              \<and> (\<exists>a b' d0. (Pixelmatch a b' d0, None) \<in> set (new_events w1 w')
                     \<and> page_call be d (Suc i + k') (prs ! k') (Pixelmatch a b' d0))"
      by (elim exE conjE) (rule that; assumption)
    have "files w1 (d @ [diff_page (Suc i + k')]) = files w (d @ [diff_page (Suc i + k')])"
      using f1 by simp
    with s2(2) have fl: "files w' (d @ [diff_page (Suc i + k')]) =
            (case res of None \<Rightarrow> files w (d @ [diff_page (Suc i + k')]) | Some h \<Rightarrow> Some h)"
      by (cases res) simp_all
    have c3: "\<forall>h. res = Some h \<longrightarrow> d \<in> dirs w \<and> d @ [diff_page (Suc i + k')] \<notin> dirs w
              \<and> (Save h (d @ [diff_page (Suc i + k')]), None) \<in> set (new_events w w')"
      using s2(3) mono2 e1(1) by simp
    have c4: "fst (prs ! k') = None \<or> snd (prs ! k') = None \<longrightarrow>
              (Print (msg_missing (Suc i + k')), None) \<in> set (new_events w w')"
      using s2(4) mono2 by blast
    have c5: "\<forall>p1 p2. prs ! k' = (Some p1, Some p2) \<longrightarrow>
              (Convert p1, None) \<in> set (new_events w w')
              \<and> (Convert p2, None) \<in> set (new_events w w')
              \<and> (\<exists>a b' d0. (Pixelmatch a b' d0, None) \<in> set (new_events w w')
                     \<and> page_call be d (Suc i + k') (prs ! k') (Pixelmatch a b' d0))"
      using s2(5) mono2 by blast
    have ix: "i + Suc k' = Suc i + k'" by simp
    show ?thesis unfolding Suc nth_Cons_Suc ix
      using s2(1) fl c3 c4 c5 by (intro exI [of _ res] conjI)
  qed
  from b pages show ?case by blast
qed

lemma loop_rerun:
  "(\<forall>k<length prs. \<exists>res. diff_result be (prs ! k) = Inr res
       \<and> (res \<noteq> None \<longrightarrow> d \<in> dirs w \<and> d @ [diff_page (i + k)] \<notin> dirs w))
   \<Longrightarrow> \<exists>b w'. compare_loop be d i prs dd w = (Inr b, w')"
proof (induction prs arbitrary: i dd w)
  case Nil
  then show ?case by (simp add: ret_def)
next
  case (Cons pr prs)
  from Cons.prems [rule_format, of 0] obtain res0 where "diff_result be pr = Inr res0"
    "res0 \<noteq> None \<longrightarrow> d \<in> dirs w \<and> d @ [diff_page i] \<notin> dirs w"
    by auto
  from page_rerun [OF this] obtain dd1 w1 where pg: "compare_page be d i pr dd w = (Inr dd1, w1)"
    by blast
  from page_any [OF pg] have dw: "dirs w1 = dirs w" by blast
  have "\<forall>k<length prs. \<exists>res. diff_result be (prs ! k) = Inr res
       \<and> (res \<noteq> None \<longrightarrow> d \<in> dirs w1 \<and> d @ [diff_page (Suc i + k)] \<notin> dirs w1)"
  proof (intro allI impI)
    fix k assume "k < length prs"
    with Cons.prems [rule_format, of "Suc k"] dw
    show "\<exists>res. diff_result be (prs ! k) = Inr res
       \<and> (res \<noteq> None \<longrightarrow> d \<in> dirs w1 \<and> d @ [diff_page (Suc i + k)] \<notin> dirs w1)"
      by simp
  qed
  from Cons.IH [OF this] obtain b w' where "compare_loop be d (Suc i) prs dd1 w1 = (Inr b, w')"
    by blast
  with pg show ?case by (simp add: seq_def)
qed

section \<open>A whole run\<close>

lemma length_zip_longest [simp]:
  "length (zip_longest xs ys) = max (length xs) (length ys)"
  by (induction xs ys rule: zip_longest.induct) simp_all

lemma nth_zip_longest:
  "k < max (length xs) (length ys) \<Longrightarrow>
   zip_longest xs ys ! k = (if k < length xs then Some (xs ! k) else None,
                           if k < length ys then Some (ys ! k) else None)"
proof (induction xs ys arbitrary: k rule: zip_longest.induct)
  case 1
  then show ?case by simp
next
  case (2 x xs)
  then show ?case by (cases k) simp_all
next
  case (3 y ys)
  then show ?case by (cases k) simp_all
next
  case (4 x xs y ys)
  then show ?case by (cases k) simp_all
qed

lemma zip_longest_no_None: "(None, None) \<notin> set (zip_longest xs ys)"
  by (induction xs ys rule: zip_longest.induct) simp_all

lemma page_call_Save:
  "page_call be d i pr (Save x p) \<Longrightarrow> p = d @ [diff_page i] \<and> diff_result be pr = Inr (Some x)"
  by (cases pr; cases "fst pr"; cases "snd pr") auto

lemma page_call_not_Mkdir [simp]: "\<not> page_call be d i pr (Mkdir p)"
  by (cases pr; cases "fst pr"; cases "snd pr") auto

lemma page_call_Pixelmatch:
  "page_call be d i pr (Pixelmatch a b' d0) \<Longrightarrow> \<exists>p1 p2. pr = (Some p1, Some p2)"
  by (cases pr; cases "fst pr"; cases "snd pr") auto

lemma page_call_Resize:
  "page_call be d i pr (Resize img s) \<Longrightarrow> \<exists>p1 p2. pr = (Some p1, Some p2)"
  by (cases pr; cases "fst pr"; cases "snd pr") auto

lemma mkdir_cases:
  "mkdir p w =
     (if \<forall>q \<in> set (prefixes p). files w q = None
      then (Inr (), w\<lparr>dirs := dirs w \<union> set (prefixes p), trace := trace w @ [(Mkdir p, None)]\<rparr>)
      else (Inl (if files w p \<noteq> None then FileExistsError else NotADirectoryError),
            w\<lparr>trace := trace w @ [(Mkdir p,
               Some (if files w p \<noteq> None then FileExistsError else NotADirectoryError))]\<rparr>))"
  by (auto simp: mkdir_def ext_def raised_def)

lemma run_cases:
  assumes "compare_pdf_pages be file1 file2 output_dir w = (r, w')"
  shows "(\<exists>e. be_convert_from_path be file1 = Inl e \<and> r = Inl e
            \<and> w' = w\<lparr>trace := trace w @ [(Convert_from_path file1, Some e)]\<rparr>)
    \<or> (\<exists>xs e. be_convert_from_path be file1 = Inr xs \<and> be_convert_from_path be file2 = Inl e
            \<and> r = Inl e
            \<and> w' = w\<lparr>trace := trace w @ [(Convert_from_path file1, None),
                  (Convert_from_path file2, Some e)]\<rparr>)
    \<or> (\<exists>xs ys e. be_convert_from_path be file1 = Inr xs \<and> be_convert_from_path be file2 = Inr ys
            \<and> r = Inl e \<and> \<not> (\<forall>q \<in> set (prefixes (be_Path be output_dir)). files w q = None)
            \<and> w' = w\<lparr>trace := trace w @ [(Convert_from_path file1, None),
                  (Convert_from_path file2, None), (Mkdir (be_Path be output_dir), Some e)]\<rparr>)
    \<or> (\<exists>xs ys. be_convert_from_path be file1 = Inr xs \<and> be_convert_from_path be file2 = Inr ys
            \<and> (\<forall>q \<in> set (prefixes (be_Path be output_dir)). files w q = None)
            \<and> compare_loop be (be_Path be output_dir) 0 (zip_longest xs ys)
                 (length xs \<noteq> length ys)
                 (start_world file1 file2 (be_Path be output_dir) (length xs) (length ys) w)
               = (r, w'))"
  using assms
  by (cases "be_convert_from_path be file1"; cases "be_convert_from_path be file2")
     (auto simp: compare_pdf_pages_def convert_from_path_def mkdir_cases seq_def print_ascii
        ext_def
        ret_def raised_def start_world_def split: if_splits)

lemma run_success:
  assumes "compare_pdf_pages be file1 file2 output_dir w = (Inr b, w')"
  shows "\<exists>xs ys. be_convert_from_path be file1 = Inr xs \<and> be_convert_from_path be file2 = Inr ys
            \<and> (\<forall>q \<in> set (prefixes (be_Path be output_dir)). files w q = None)
            \<and> compare_loop be (be_Path be output_dir) 0 (zip_longest xs ys)
                 (length xs \<noteq> length ys)
                 (start_world file1 file2 (be_Path be output_dir) (length xs) (length ys) w)
               = (Inr b, w')"
  using run_cases [OF assms] by auto

text \<open>The definitions a run of the model on concrete inputs unfolds.\<close>

lemmas run_defs = compare_pdf_pages_def compare_page_def convert_from_path_def convert_def
  resize_def new_def pixelmatch_def alpha_composite_def print_def mkdir_def save_def
  save_error_def seq_def ret_def raise_def ext_def raised_def py_or_def example_backend_def
  example_world_def

section \<open>The command line\<close>

lemma verdicts_not_ascii [simp]: "\<not> ascii msg_differences" "\<not> ascii msg_no_differences"
  by (simp_all add: msg_differences_def msg_no_differences_def)




section \<open>Failures\<close>

text \<open>
  Claim C10. If rasterizing either input fails, the run ends with that exception and
  has written nothing: the directories and the files are those of the start, and the
  only calls made are the rasterization calls (no \<open>Mkdir\<close>, no \<open>Save\<close>).
\<close>

theorem rasterize_failure_no_writes:
  assumes "be_convert_from_path be file1 = Inl e1
           \<or> (\<exists>e2. be_convert_from_path be file2 = Inl e2)"
    and "compare_pdf_pages be file1 file2 output_dir w = (r, w')"
  shows "dirs w' = dirs w \<and> files w' = files w
         \<and> (\<exists>e. r = Inl e)
         \<and> (\<forall>ev \<in> set (new_events w w'). \<exists>p. fst ev = Convert_from_path p)"
  using assms
  by (cases "be_convert_from_path be file1"; cases "be_convert_from_path be file2")
     (auto simp: compare_pdf_pages_def convert_from_path_def new_events_def)

theorem rasterize_failure_no_writes_witness:
  "dirs (snd (compare_pdf_pages example_backend ''a.pdf'' ''missing.pdf'' ''out'' example_world))
     = {[]}"
  using rasterize_failure_no_writes [of example_backend "''a.pdf''" _ "''missing.pdf''"
     "''out''" example_world
     "fst (compare_pdf_pages example_backend ''a.pdf'' ''missing.pdf'' ''out'' example_world)"
     "snd (compare_pdf_pages example_backend ''a.pdf'' ''missing.pdf'' ''out'' example_world)"]
  by (simp add: example_backend_def example_world_def)

section \<open>The example run\<close>

text \<open>
  The model run on \<^verbatim>\<open>a.pdf\<close> and \<^verbatim>\<open>b.pdf\<close>: page 1 is identical, page 2 differs (after
  the second image is resized) and page 3 has no counterpart.
\<close>

lemma example_run:
  "compare_pdf_pages example_backend ''a.pdf'' ''b.pdf'' ''out'' example_world =
     (Inr True,
      \<lparr>dirs = {[], [''out'']},
       files = [[''out'', ''diff_page_2.png''] \<mapsto> 1002, [''out'', ''diff_page_3.png''] \<mapsto> 3],
       trace =
         [(Convert_from_path ''a.pdf'', None), (Convert_from_path ''b.pdf'', None),
          (Mkdir [''out''], None),
          (Print ''Warning: Page count mismatch! (3 vs 2)'', None),
          (Convert 1, None), (Convert 1, None), (New (10, 10), None),
          (Pixelmatch 1 1 0, None),
          (Convert 2, None), (Convert 4, None),
          (Print ''Page 2: Size mismatch (10, 10) vs (20, 10). Resizing img2.'', None),
          (Resize 4 (10, 10), None), (New (10, 10), None), (Pixelmatch 2 104 0, None),
          (Alpha_composite 2 1000, None), (Save 1002 [''out'', ''diff_page_2.png''], None),
          (Print ''Page 2: Found 7 pixels of difference.'', None),
          (Save 3 [''out'', ''diff_page_3.png''], None),
          (Print ''Page 3: Missing in one of the PDFs.'', None)]\<rparr>)"
  by (simp add: run_defs diff_page_def msg_page_count_def msg_size_def msg_found_def
      msg_missing_def str_size_def str_nat.simps digit_def insert_commute)

lemma example_pages:
  "be_convert_from_path example_backend ''a.pdf'' = Inr [1, 2, 3]"
  "be_convert_from_path example_backend ''b.pdf'' = Inr [1, 4]"
  "be_convert_from_path example_backend ''missing.pdf'' = Inl (External ''PDFPageCountError'')"
  "be_Path example_backend ''out'' = [''out'']"
  by (simp_all add: example_backend_def)


section \<open>The result of a comparison\<close>

lemma start_world_simps [simp]:
  "dirs (start_world f1 f2 d n1 n2 w) = dirs w \<union> set (prefixes d)"
  "files (start_world f1 f2 d n1 n2 w) = files w"
  by (simp_all add: start_world_def)

lemma pixel_mismatch_nth:
  assumes "k < max (length xs) (length ys)"
  shows "pixel_mismatch be (zip_longest xs ys ! k) \<longleftrightarrow>
    k < length xs \<and> k < length ys
    \<and> (\<exists>m a dimg. pixel_diff be (xs ! k) (ys ! k) = Inr (m, a, dimg) \<and> m > 0)"
  using assms by (auto simp: nth_zip_longest split: sum.splits)


text \<open>
  Claim C1. When \<^verbatim>\<open>compare_pdf_pages\<close> returns, it returns true if and only if some page
  is non-identical: the page counts differ, or some index has a page in one document
  only (which is the same condition), or the pixel difference of some pair of pages has a
  positive mismatch count. It returns false only when the page counts are equal and
  the pixel difference of every pair of pages is taken and has zero mismatched pixels.
\<close>

theorem compare_result_iff:
  assumes "compare_pdf_pages be file1 file2 output_dir w = (Inr b, w')"
  shows "\<exists>xs ys. be_convert_from_path be file1 = Inr xs \<and> be_convert_from_path be file2 = Inr ys
    \<and> (b \<longleftrightarrow> length xs \<noteq> length ys
            \<or> (\<exists>i. (i < length xs) \<noteq> (i < length ys))
            \<or> (\<exists>i. i < length xs \<and> i < length ys
                 \<and> (\<exists>m a dimg. pixel_diff be (xs ! i) (ys ! i) = Inr (m, a, dimg) \<and> m > 0)))
    \<and> (\<not> b \<longrightarrow> length xs = length ys
            \<and> (\<forall>i<length xs. \<exists>a dimg. pixel_diff be (xs ! i) (ys ! i) = Inr (0, a, dimg)))"
proof -
  from run_success [OF assms] obtain xs ys where
    xs: "be_convert_from_path be file1 = Inr xs" and ys: "be_convert_from_path be file2 = Inr ys"
    and lp: "compare_loop be (be_Path be output_dir) 0 (zip_longest xs ys) (length xs \<noteq> length ys)
       (start_world file1 file2 (be_Path be output_dir) (length xs) (length ys) w) = (Inr b, w')"
    by blast
  note ls = loop_success [OF lp]
  from ls have b: "b = (length xs \<noteq> length ys
      \<or> (\<exists>k<length (zip_longest xs ys). pixel_mismatch be (zip_longest xs ys ! k)))"
    by (rule conjunct1)
  have len: "(\<exists>i. (i < length xs) \<noteq> (i < length ys)) \<longleftrightarrow> length xs \<noteq> length ys"
    by (metis less_irrefl linorder_neqE_nat)
  have pm: "(\<exists>k<length (zip_longest xs ys). pixel_mismatch be (zip_longest xs ys ! k))
     \<longleftrightarrow> (\<exists>i. i < length xs \<and> i < length ys
                 \<and> (\<exists>m a dimg. pixel_diff be (xs ! i) (ys ! i) = Inr (m, a, dimg) \<and> m > 0))"
    (is "?L \<longleftrightarrow> ?R")
  proof
    assume ?L
    then obtain k where "k < max (length xs) (length ys)"
      "pixel_mismatch be (zip_longest xs ys ! k)" by auto
    then show ?R using pixel_mismatch_nth [of k xs ys be] by blast
  next
    assume ?R
    then obtain i where i: "i < length xs" "i < length ys"
      "\<exists>m a dimg. pixel_diff be (xs ! i) (ys ! i) = Inr (m, a, dimg) \<and> m > 0" by blast
    then have "i < max (length xs) (length ys)" by simp
    with i show ?L using pixel_mismatch_nth [of i xs ys be] by auto
  qed
  have iff: "b \<longleftrightarrow> length xs \<noteq> length ys
            \<or> (\<exists>i. (i < length xs) \<noteq> (i < length ys))
            \<or> (\<exists>i. i < length xs \<and> i < length ys
                 \<and> (\<exists>m a dimg. pixel_diff be (xs ! i) (ys ! i) = Inr (m, a, dimg) \<and> m > 0))"
    unfolding len using b pm by blast
  have zero: "length xs = length ys
       \<and> (\<forall>i<length xs. \<exists>a dimg. pixel_diff be (xs ! i) (ys ! i) = Inr (0, a, dimg))" if nb: "\<not> b"
  proof -
    from nb iff have eq: "length xs = length ys" by blast
    have "\<exists>a dimg. pixel_diff be (xs ! i) (ys ! i) = Inr (0, a, dimg)" if i: "i < length xs" for i
    proof -
      from i eq have k: "i < length (zip_longest xs ys)" by simp
      from ls [THEN conjunct2, THEN spec, THEN mp, OF k]
      obtain res where "diff_result be (zip_longest xs ys ! i) = Inr res" by blast
      with i eq have "diff_result be (Some (xs ! i), Some (ys ! i)) = Inr res"
        by (simp add: nth_zip_longest)
      then obtain m a dimg where pd: "pixel_diff be (xs ! i) (ys ! i) = Inr (m, a, dimg)"
        by (cases "pixel_diff be (xs ! i) (ys ! i)") auto
      with nb iff i eq have "m = 0" by auto
      with pd show ?thesis by blast
    qed
    with eq show ?thesis by blast
  qed
  from xs ys iff zero show ?thesis by blast
qed

theorem compare_result_iff_witness:
  "be_convert_from_path example_backend ''a.pdf'' = Inr [1, 2, 3]
   \<and> be_convert_from_path example_backend ''b.pdf'' = Inr [1, 4]
   \<and> fst (compare_pdf_pages example_backend ''a.pdf'' ''b.pdf'' ''out'' example_world) = Inr True
   \<and> length [1, 2, 3 :: nat] \<noteq> length [1, 4 :: nat]"
  using compare_result_iff [OF example_run] by (simp add: example_run example_pages)

section \<open>Failures, continued\<close>

lemma run_events:
  assumes "compare_pdf_pages be file1 file2 output_dir w = (r, w')"
  shows "\<exists>evs. trace w' = trace w @ evs
       \<and> (\<forall>ev \<in> set (butlast evs). snd ev = None)
       \<and> ((\<exists>b. r = Inr b) \<longrightarrow> (\<forall>ev \<in> set evs. snd ev = None))
       \<and> (\<forall>e. r = Inl e \<longrightarrow> evs \<noteq> [] \<and> snd (last evs) = Some e)"
proof -
  let ?d = "be_Path be output_dir"
  from run_cases [OF assms] show ?thesis
  proof (elim disjE exE conjE)
    fix xs ys
    assume lp: "compare_loop be ?d 0 (zip_longest xs ys) (length xs \<noteq> length ys)
        (start_world file1 file2 ?d (length xs) (length ys) w) = (r, w')"
    let ?w0 = "start_world file1 file2 ?d (length xs) (length ys) w"
    obtain evs0 where t0: "trace ?w0 = trace w @ evs0" "\<forall>ev \<in> set evs0. snd ev = None"
      "evs0 \<noteq> []"
      by (simp add: start_world_def)
    from loop_any [OF lp] zip_longest_no_None [of xs ys] obtain evs where
      t1: "trace w' = trace ?w0 @ evs" "\<forall>ev \<in> set (butlast evs). snd ev = None"
        "(\<exists>b. r = Inr b) \<longrightarrow> (\<forall>ev \<in> set evs. snd ev = None)"
        "\<forall>e. r = Inl e \<longrightarrow> evs \<noteq> [] \<and> snd (last evs) = Some e"
      by blast
    have "trace w' = trace w @ (evs0 @ evs)" using t0(1) t1(1) by simp
    moreover have "\<forall>ev \<in> set (butlast (evs0 @ evs)). snd ev = None"
      using t0(2) t1(2) by (auto simp: butlast_append dest: in_set_butlastD)
    moreover have "(\<exists>b. r = Inr b) \<longrightarrow> (\<forall>ev \<in> set (evs0 @ evs). snd ev = None)"
      using t0(2) t1(3) by auto
    moreover have "\<forall>e. r = Inl e \<longrightarrow> evs0 @ evs \<noteq> [] \<and> snd (last (evs0 @ evs)) = Some e"
      using t1(4) by auto
    ultimately show ?thesis by blast
  qed auto
qed

text \<open>
  Claim C9. Nothing is caught and nothing is retried: in every run only the last external
  call can have raised. When a call raises, the run ends there with exactly that
  exception (no call follows it), and a run that returns a value has had no failing call.
\<close>

theorem failures_propagate:
  assumes "compare_pdf_pages be file1 file2 output_dir w = (r, w')"
  shows "(\<forall>ev \<in> set (butlast (new_events w w')). snd ev = None)
       \<and> (\<forall>ev \<in> set (new_events w w'). \<forall>e. snd ev = Some e \<longrightarrow>
             r = Inl e \<and> ev = last (new_events w w'))
       \<and> (\<forall>e. r = Inl e \<longrightarrow>
             new_events w w' \<noteq> [] \<and> snd (last (new_events w w')) = Some e)"
proof -
  from run_events [OF assms] obtain evs where e: "trace w' = trace w @ evs"
    "\<forall>ev \<in> set (butlast evs). snd ev = None"
    "(\<exists>b. r = Inr b) \<longrightarrow> (\<forall>ev \<in> set evs. snd ev = None)"
    "\<forall>e. r = Inl e \<longrightarrow> evs \<noteq> [] \<and> snd (last evs) = Some e"
    by blast
  have "r = Inl x \<and> ev = last evs" if ev: "ev \<in> set evs" and x: "snd ev = Some x" for ev x
  proof -
    from ev x e(3) obtain y where y: "r = Inl y" by (cases r) auto
    with e(4) have ne: "evs \<noteq> []" and l: "snd (last evs) = Some y" by simp_all
    from ev ne have "ev \<in> set (butlast evs) \<or> ev = last evs"
      by (metis append_butlast_last_id Un_iff insert_iff list.set(2) set_append empty_iff
          list.set(1))
    with e(2) x have "ev = last evs" by auto
    with l x y show ?thesis by simp
  qed
  with e(1,2,4) show ?thesis by simp
qed

theorem failures_propagate_witness:
  "fst (compare_pdf_pages example_backend ''a.pdf'' ''missing.pdf'' ''out'' example_world)
     = Inl (External ''PDFPageCountError'')
   \<and> new_events example_world
        (snd (compare_pdf_pages example_backend ''a.pdf'' ''missing.pdf'' ''out'' example_world))
     = [(Convert_from_path ''a.pdf'', None),
        (Convert_from_path ''missing.pdf'', Some (External ''PDFPageCountError''))]"
  using failures_propagate [of example_backend "''a.pdf''" "''missing.pdf''" "''out''"
     example_world
     "fst (compare_pdf_pages example_backend ''a.pdf'' ''missing.pdf'' ''out'' example_world)"
     "snd (compare_pdf_pages example_backend ''a.pdf'' ''missing.pdf'' ''out'' example_world)"]
  by (simp add: compare_pdf_pages_def convert_from_path_def example_pages example_world_def
      new_events_def)

section \<open>The output directory\<close>

lemma start_world_events:
  "new_events w (start_world file1 file2 d n1 n2 w) =
     [(Convert_from_path file1, None), (Convert_from_path file2, None), (Mkdir d, None)]
       @ (if n1 \<noteq> n2 then [(Print (msg_page_count n1 n2), None)] else [])"
  by (simp add: start_world_def new_events_def)

text \<open>
  Claim C3. Whenever a run saves anything, the call that made the output directory has
  come first and has succeeded: the events of the run start with the two rasterizations
  and the successful \<open>Mkdir\<close> of the output directory, no save is among the events
  before it, the saved path lies directly in the output directory, and the directory and
  all its parents exist (from then on: nothing removes a directory).
\<close>

theorem save_after_mkdir:
  assumes run: "compare_pdf_pages be file1 file2 output_dir w = (r, w')"
    and sv: "(Save img p, x) \<in> set (new_events w w')"
  shows "\<exists>pre post. new_events w w' = pre @ (Mkdir (be_Path be output_dir), None) # post
       \<and> (\<forall>img' p' x'. (Save img' p', x') \<notin> set pre)
       \<and> set (prefixes (be_Path be output_dir)) \<subseteq> dirs w'
       \<and> (\<exists>i. p = be_Path be output_dir @ [diff_page i])"
proof -
  let ?d = "be_Path be output_dir"
  from run_cases [OF run] show ?thesis
  proof (elim disjE exE conjE)
    fix xs ys
    assume lp: "compare_loop be ?d 0 (zip_longest xs ys) (length xs \<noteq> length ys)
        (start_world file1 file2 ?d (length xs) (length ys) w) = (r, w')"
    let ?w0 = "start_world file1 file2 ?d (length xs) (length ys) w"
    let ?warn = "if length xs \<noteq> length ys
       then [(Print (msg_page_count (length xs) (length ys)), None :: exn option)] else []"
    have t0: "trace ?w0 = trace w @ ([(Convert_from_path file1, None),
        (Convert_from_path file2, None), (Mkdir ?d, None)] @ ?warn)"
      by (simp add: start_world_def)
    from loop_any [OF lp] obtain evs where
      l: "dirs w' = dirs ?w0" "trace w' = trace ?w0 @ evs"
        "\<forall>ev \<in> set evs. \<exists>k<length (zip_longest xs ys).
            page_call be ?d (0 + k) (zip_longest xs ys ! k) (fst ev)"
      by blast
    have shape: "new_events w w' = [(Convert_from_path file1, None),
        (Convert_from_path file2, None)] @ (Mkdir ?d, None) # (?warn @ evs)"
      unfolding new_events_def l(2) t0 by simp
    from sv have "(Save img p, x) \<in> set evs"
      unfolding shape by (auto split: if_splits)
    with l(3) obtain k where "page_call be ?d k (zip_longest xs ys ! k) (Save img p)"
      by fastforce
    then have "p = ?d @ [diff_page k]" by (auto dest: page_call_Save)
    moreover have "set (prefixes ?d) \<subseteq> dirs w'" using l(1) by simp
    moreover have "\<forall>img' p' x'. (Save img' p', x') \<notin> set [(Convert_from_path file1, None),
        (Convert_from_path file2, None :: exn option)]" by simp
    ultimately show ?thesis using shape by blast
  qed (use sv in \<open>auto simp: new_events_def\<close>)
qed

lemma example_world_simps [simp]:
  "trace example_world = []" "dirs example_world = {[]}" "files example_world = Map.empty"
  by (simp_all add: example_world_def)

theorem save_after_mkdir_witness:
  "(Save 3 [''out'', ''diff_page_3.png''], None) \<in> set (new_events example_world
       (snd (compare_pdf_pages example_backend ''a.pdf'' ''b.pdf'' ''out'' example_world)))
   \<and> (\<exists>pre post. new_events example_world
          (snd (compare_pdf_pages example_backend ''a.pdf'' ''b.pdf'' ''out'' example_world))
        = pre @ (Mkdir [''out''], None) # post)"
proof -
  have sv: "(Save 3 [''out'', ''diff_page_3.png''], None) \<in> set (new_events example_world
       (snd (compare_pdf_pages example_backend ''a.pdf'' ''b.pdf'' ''out'' example_world)))"
    by (simp add: example_run new_events_def)
  have run: "compare_pdf_pages example_backend ''a.pdf'' ''b.pdf'' ''out'' example_world =
      (fst (compare_pdf_pages example_backend ''a.pdf'' ''b.pdf'' ''out'' example_world),
       snd (compare_pdf_pages example_backend ''a.pdf'' ''b.pdf'' ''out'' example_world))"
    by simp
  from save_after_mkdir [OF run sv] obtain pre post where "new_events example_world
          (snd (compare_pdf_pages example_backend ''a.pdf'' ''b.pdf'' ''out'' example_world))
        = pre @ (Mkdir (be_Path example_backend ''out''), None) # post"
    by blast
  then have "\<exists>pre post. new_events example_world
          (snd (compare_pdf_pages example_backend ''a.pdf'' ''b.pdf'' ''out'' example_world))
        = pre @ (Mkdir [''out''], None) # post"
    unfolding example_pages by blast
  with sv show ?thesis by (rule conjI)
qed

section \<open>Differing page counts\<close>

lemma run_loop_success:
  assumes run: "compare_pdf_pages be file1 file2 output_dir w = (Inr b, w')"
    and xs: "be_convert_from_path be file1 = Inr xs"
    and ys: "be_convert_from_path be file2 = Inr ys"
  shows "compare_loop be (be_Path be output_dir) 0 (zip_longest xs ys) (length xs \<noteq> length ys)
           (start_world file1 file2 (be_Path be output_dir) (length xs) (length ys) w)
         = (Inr b, w')"
    and "\<forall>q \<in> set (prefixes (be_Path be output_dir)). files w q = None"
  using run_success [OF run] xs ys by auto

lemma run_mono:
  assumes lp: "compare_loop be d 0 prs dd (start_world file1 file2 d n1 n2 w) = (r, w')"
  shows "new_events w w' = new_events w (start_world file1 file2 d n1 n2 w)
           @ new_events (start_world file1 file2 d n1 n2 w) w'"
proof -
  from loop_any [OF lp] obtain evs where
    "trace w' = trace (start_world file1 file2 d n1 n2 w) @ evs" by blast
  moreover have "trace (start_world file1 file2 d n1 n2 w)
      = trace w @ ([(Convert_from_path file1, None), (Convert_from_path file2, None),
           (Mkdir d, None)]
         @ (if n1 \<noteq> n2 then [(Print (msg_page_count n1 n2), None)] else []))"
    by (simp add: start_world_def)
  ultimately show ?thesis by (rule new_events_trans [where ?w=w, rotated])
qed

text \<open>
  The pages of a successful run, index by index: what \<open>loop_success\<close> says of the pair at
  index \<open>i\<close>, in terms of the events of the whole run.
\<close>

lemma run_page:
  assumes run: "compare_pdf_pages be file1 file2 output_dir w = (Inr b, w')"
    and xs: "be_convert_from_path be file1 = Inr xs"
    and ys: "be_convert_from_path be file2 = Inr ys"
    and i: "i < max (length xs) (length ys)"
  shows "\<exists>res. diff_result be (zip_longest xs ys ! i) = Inr res
        \<and> files w' (be_Path be output_dir @ [diff_page i]) =
            (case res of None \<Rightarrow> files w (be_Path be output_dir @ [diff_page i])
             | Some h \<Rightarrow> Some h)
        \<and> (\<forall>h. res = Some h \<longrightarrow>
              (Save h (be_Path be output_dir @ [diff_page i]), None) \<in> set (new_events w w'))
        \<and> (fst (zip_longest xs ys ! i) = None \<or> snd (zip_longest xs ys ! i) = None \<longrightarrow>
              (Print (msg_missing i), None) \<in> set (new_events w w'))
        \<and> (\<forall>p1 p2. zip_longest xs ys ! i = (Some p1, Some p2) \<longrightarrow>
              (Convert p1, None) \<in> set (new_events w w')
              \<and> (Convert p2, None) \<in> set (new_events w w')
              \<and> (\<exists>a b' d0. (Pixelmatch a b' d0, None) \<in> set (new_events w w')
                     \<and> page_call be (be_Path be output_dir) i (zip_longest xs ys ! i)
                          (Pixelmatch a b' d0)))"
proof -
  let ?d = "be_Path be output_dir"
  let ?w0 = "start_world file1 file2 ?d (length xs) (length ys) w"
  note lp = run_loop_success(1) [OF run xs ys]
  from i have k: "i < length (zip_longest xs ys)" by simp
  have mono: "x \<in> set (new_events w w')" if "x \<in> set (new_events ?w0 w')" for x
    using that run_mono [OF lp] by simp
  from loop_success [OF lp, THEN conjunct2, THEN spec, THEN mp, OF k]
  obtain res where s: "diff_result be (zip_longest xs ys ! i) = Inr res"
      "files w' (?d @ [diff_page (0 + i)]) =
            (case res of None \<Rightarrow> files ?w0 (?d @ [diff_page (0 + i)]) | Some h \<Rightarrow> Some h)"
      "\<forall>h. res = Some h \<longrightarrow> ?d \<in> dirs ?w0 \<and> ?d @ [diff_page (0 + i)] \<notin> dirs ?w0
              \<and> (Save h (?d @ [diff_page (0 + i)]), None) \<in> set (new_events ?w0 w')"
      "fst (zip_longest xs ys ! i) = None \<or> snd (zip_longest xs ys ! i) = None \<longrightarrow>
              (Print (msg_missing (0 + i)), None) \<in> set (new_events ?w0 w')"
      "\<forall>p1 p2. zip_longest xs ys ! i = (Some p1, Some p2) \<longrightarrow>
              (Convert p1, None) \<in> set (new_events ?w0 w')
              \<and> (Convert p2, None) \<in> set (new_events ?w0 w')
              \<and> (\<exists>a b' d0. (Pixelmatch a b' d0, None) \<in> set (new_events ?w0 w')
                     \<and> page_call be ?d (0 + i) (zip_longest xs ys ! i) (Pixelmatch a b' d0))"
    by (elim exE conjE) (rule that; assumption)
  have c2: "files w' (?d @ [diff_page i]) =
            (case res of None \<Rightarrow> files w (?d @ [diff_page i]) | Some h \<Rightarrow> Some h)"
    using s(2) by (cases res) simp_all
  have c3: "\<forall>h. res = Some h \<longrightarrow> (Save h (?d @ [diff_page i]), None) \<in> set (new_events w w')"
    using s(3) mono by simp
  have c4: "fst (zip_longest xs ys ! i) = None \<or> snd (zip_longest xs ys ! i) = None \<longrightarrow>
              (Print (msg_missing i), None) \<in> set (new_events w w')"
    using s(4) mono by simp
  have c5: "\<forall>p1 p2. zip_longest xs ys ! i = (Some p1, Some p2) \<longrightarrow>
              (Convert p1, None) \<in> set (new_events w w')
              \<and> (Convert p2, None) \<in> set (new_events w w')
              \<and> (\<exists>a b' d0. (Pixelmatch a b' d0, None) \<in> set (new_events w w')
                     \<and> page_call be ?d i (zip_longest xs ys ! i) (Pixelmatch a b' d0))"
    using s(5) mono unfolding add_0 by blast
  show ?thesis using s(1) c2 c3 c4 c5 by (intro exI [of _ res] conjI)
qed

lemma run_call_origin:
  assumes run: "compare_pdf_pages be file1 file2 output_dir w = (r, w')"
    and xs: "be_convert_from_path be file1 = Inr xs"
    and ys: "be_convert_from_path be file2 = Inr ys"
    and ev: "(c, x) \<in> set (new_events w w')"
    and c: "c \<notin> range Convert_from_path \<union> range Mkdir \<union> range Print"
  shows "\<exists>k<max (length xs) (length ys).
           page_call be (be_Path be output_dir) k (zip_longest xs ys ! k) c"
proof -
  let ?d = "be_Path be output_dir"
  let ?w0 = "start_world file1 file2 ?d (length xs) (length ys) w"
  from run_cases [OF run] xs ys show ?thesis
  proof (elim disjE exE conjE)
    fix xs' ys'
    assume "be_convert_from_path be file1 = Inr xs'" "be_convert_from_path be file2 = Inr ys'"
      and "compare_loop be ?d 0 (zip_longest xs' ys') (length xs' \<noteq> length ys')
        (start_world file1 file2 ?d (length xs') (length ys') w) = (r, w')"
    with xs ys have lp: "compare_loop be ?d 0 (zip_longest xs ys) (length xs \<noteq> length ys) ?w0
         = (r, w')" by simp
    from loop_any [OF lp] obtain evs where
      l: "trace w' = trace ?w0 @ evs"
        "\<forall>ev \<in> set evs. \<exists>k<length (zip_longest xs ys).
            page_call be ?d (0 + k) (zip_longest xs ys ! k) (fst ev)"
      by blast
    from ev c run_mono [OF lp] l(1) have "(c, x) \<in> set evs"
      by (auto simp: start_world_events split: if_splits)
    with l(2) show ?thesis by fastforce
  qed (use ev c in \<open>auto simp: new_events_def\<close>)
qed



section \<open>Pages without counterpart\<close>

lemma call_classes [simp]:
  "Pixelmatch a b' d0 \<notin> range Convert_from_path \<union> range Mkdir \<union> range Print"
  "Resize img s \<notin> range Convert_from_path \<union> range Mkdir \<union> range Print"
  "Save img p \<notin> range Convert_from_path \<union> range Mkdir \<union> range Print"
  by auto

lemma run_pixelmatch_origin:
  assumes run: "compare_pdf_pages be file1 file2 output_dir w = (r, w')"
    and xs: "be_convert_from_path be file1 = Inr xs"
    and ys: "be_convert_from_path be file2 = Inr ys"
    and ev: "(Pixelmatch a b' d0, x) \<in> set (new_events w w')"
  shows "\<exists>k. k < length xs \<and> k < length ys
           \<and> page_call be (be_Path be output_dir) k (Some (xs ! k), Some (ys ! k))
                (Pixelmatch a b' d0)"
proof -
  from run_call_origin [OF run xs ys ev call_classes(1)] obtain k where
    k: "k < max (length xs) (length ys)"
    and pc: "page_call be (be_Path be output_dir) k (zip_longest xs ys ! k) (Pixelmatch a b' d0)"
    by blast
  from page_call_Pixelmatch [OF pc] k have "k < length xs \<and> k < length ys"
    by (auto simp: nth_zip_longest split: if_splits)
  with pc k show ?thesis by (auto simp: nth_zip_longest simp del: page_call.simps)
qed

text \<open>
  Claim C4. In a run that returns, at every index \<open>i\<close> where exactly one document has a
  page, that page is saved as \<^verbatim>\<open>diff_page_{i+1}.png\<close> in the output directory (and is what
  the file holds at the end), the message that the page is missing is printed, and no
  pixel difference is taken for that index: every pixel difference of the run belongs to
  an index at which both documents have a page.
\<close>

theorem missing_page_saved:
  assumes run: "compare_pdf_pages be file1 file2 output_dir w = (Inr b, w')"
    and xs: "be_convert_from_path be file1 = Inr xs"
    and ys: "be_convert_from_path be file2 = Inr ys"
    and i: "(i < length xs) \<noteq> (i < length ys)"
  shows "(Save (if i < length xs then xs ! i else ys ! i)
            (be_Path be output_dir @ [diff_page i]), None) \<in> set (new_events w w')
       \<and> (Print (msg_missing i), None) \<in> set (new_events w w')
       \<and> files w' (be_Path be output_dir @ [diff_page i])
            = Some (if i < length xs then xs ! i else ys ! i)
       \<and> (\<forall>a b' d0 x. (Pixelmatch a b' d0, x) \<in> set (new_events w w') \<longrightarrow>
            (\<exists>k. k \<noteq> i \<and> k < length xs \<and> k < length ys
                \<and> page_call be (be_Path be output_dir) k (Some (xs ! k), Some (ys ! k))
                     (Pixelmatch a b' d0)))"
proof -
  from i have i': "i < max (length xs) (length ys)" by (auto simp: less_max_iff_disj)
  from run_page [OF run xs ys i'] i i'
  have "(Save (if i < length xs then xs ! i else ys ! i)
            (be_Path be output_dir @ [diff_page i]), None) \<in> set (new_events w w')"
    and "(Print (msg_missing i), None) \<in> set (new_events w w')"
    and "files w' (be_Path be output_dir @ [diff_page i])
            = Some (if i < length xs then xs ! i else ys ! i)"
    by (auto simp: nth_zip_longest split: if_splits)
  moreover have "\<exists>k. k \<noteq> i \<and> k < length xs \<and> k < length ys
                \<and> page_call be (be_Path be output_dir) k (Some (xs ! k), Some (ys ! k))
                     (Pixelmatch a b' d0)"
    if "(Pixelmatch a b' d0, x) \<in> set (new_events w w')" for a b' d0 x
    using run_pixelmatch_origin [OF run xs ys that] i by (auto simp del: page_call.simps)
  ultimately show ?thesis by blast
qed

lemma example_run_snd:
  "compare_pdf_pages example_backend ''a.pdf'' ''b.pdf'' ''out'' example_world =
     (Inr True, snd (compare_pdf_pages example_backend ''a.pdf'' ''b.pdf'' ''out'' example_world))"
  by (simp add: example_run)

theorem missing_page_saved_witness:
  "(2 < length [1, 2, 3 :: nat]) \<noteq> (2 < length [1, 4 :: nat])
   \<and> files (snd (compare_pdf_pages example_backend ''a.pdf'' ''b.pdf'' ''out'' example_world))
        [''out'', diff_page 2] = Some 3"
proof -
  have h: "(2 < length [1, 2, 3 :: nat]) \<noteq> (2 < length [1, 4 :: nat])" by simp
  note t = missing_page_saved [OF example_run_snd example_pages(1) example_pages(2) h]
  from t [THEN conjunct2, THEN conjunct2, THEN conjunct1]
  have "files (snd (compare_pdf_pages example_backend ''a.pdf'' ''b.pdf'' ''out'' example_world))
        [''out'', diff_page 2] = Some 3"
    by (simp add: example_pages)
  with h show ?thesis by (rule conjI)
qed

section \<open>Pages that both exist\<close>

lemma run_result:
  assumes run: "compare_pdf_pages be file1 file2 output_dir w = (Inr b, w')"
    and xs: "be_convert_from_path be file1 = Inr xs"
    and ys: "be_convert_from_path be file2 = Inr ys"
  shows "b \<longleftrightarrow> length xs \<noteq> length ys
           \<or> (\<exists>i. i < length xs \<and> i < length ys
                \<and> (\<exists>m a dimg. pixel_diff be (xs ! i) (ys ! i) = Inr (m, a, dimg) \<and> m > 0))"
proof -
  from loop_success [OF run_loop_success(1) [OF run xs ys], THEN conjunct1]
  have b: "b = (length xs \<noteq> length ys
      \<or> (\<exists>k<length (zip_longest xs ys). pixel_mismatch be (zip_longest xs ys ! k)))" .
  have "(\<exists>k<length (zip_longest xs ys). pixel_mismatch be (zip_longest xs ys ! k))
     \<longleftrightarrow> (\<exists>i. i < length xs \<and> i < length ys
                 \<and> (\<exists>m a dimg. pixel_diff be (xs ! i) (ys ! i) = Inr (m, a, dimg) \<and> m > 0))"
    (is "?L \<longleftrightarrow> ?R")
  proof
    assume ?L
    then obtain k where "k < max (length xs) (length ys)"
      "pixel_mismatch be (zip_longest xs ys ! k)" by auto
    then show ?R using pixel_mismatch_nth [of k xs ys be] by blast
  next
    assume ?R
    then obtain i where i: "i < length xs" "i < length ys"
      "\<exists>m a dimg. pixel_diff be (xs ! i) (ys ! i) = Inr (m, a, dimg) \<and> m > 0" by blast
    then have "i < max (length xs) (length ys)" by simp
    with i show ?L using pixel_mismatch_nth [of i xs ys be] by auto
  qed
  with b show ?thesis by (simp only:)
qed

lemma page_call_Pixelmatch_paired:
  assumes "page_call be d k (Some p1, Some p2) (Pixelmatch a b' d0)"
  shows "\<exists>b0. be_convert be p1 = Inr a \<and> be_convert be p2 = Inr b0
     \<and> (if be_size be a \<noteq> be_size be b0 then be_resize be b0 (be_size be a) = Inr b'
         else b' = b0)
     \<and> be_new be (be_size be a) = Inr d0"
  using assms by (auto split: sum.splits if_splits)

lemma page_call_Resize_paired:
  assumes "page_call be d k (Some p1, Some p2) (Resize img s)"
  shows "\<exists>a. be_convert be p1 = Inr a \<and> be_convert be p2 = Inr img
     \<and> s = be_size be a \<and> be_size be a \<noteq> be_size be img"
  using assms by (auto split: sum.splits)

text \<open>
  Claim C5. In every run, a resize is only ever applied to the converted second page of a
  pair whose converted sizes differ, and its target is the size of the converted first
  page; and every pixel difference is taken between the converted first page, never
  resized, and the converted second page, resized to the first one's size exactly when
  the sizes differ, on a blank overlay of the first one's size. In a run that returns,
  this is done for every index that both documents have, and with equal page counts the
  result is true exactly when one of these pixel differences (taken after the resize)
  counts a mismatch: a difference of sizes alone does not make the result true.
\<close>

theorem paired_pages_prepared:
  assumes run: "compare_pdf_pages be file1 file2 output_dir w = (r, w')"
    and xs: "be_convert_from_path be file1 = Inr xs"
    and ys: "be_convert_from_path be file2 = Inr ys"
  shows "(\<forall>img s x. (Resize img s, x) \<in> set (new_events w w') \<longrightarrow>
            (\<exists>k a. k < length xs \<and> k < length ys
               \<and> be_convert be (xs ! k) = Inr a \<and> be_convert be (ys ! k) = Inr img
               \<and> s = be_size be a \<and> be_size be a \<noteq> be_size be img))
       \<and> (\<forall>a b' d0 x. (Pixelmatch a b' d0, x) \<in> set (new_events w w') \<longrightarrow>
            (\<exists>k b0. k < length xs \<and> k < length ys
               \<and> be_convert be (xs ! k) = Inr a \<and> be_convert be (ys ! k) = Inr b0
               \<and> (if be_size be a \<noteq> be_size be b0
                   then be_resize be b0 (be_size be a) = Inr b' else b' = b0)
               \<and> be_new be (be_size be a) = Inr d0))
       \<and> (\<forall>b. r = Inr b \<longrightarrow>
            (\<forall>k. k < length xs \<and> k < length ys \<longrightarrow>
               (Convert (xs ! k), None) \<in> set (new_events w w')
               \<and> (Convert (ys ! k), None) \<in> set (new_events w w')
               \<and> (\<exists>a b0 b' d0. be_convert be (xs ! k) = Inr a \<and> be_convert be (ys ! k) = Inr b0
                    \<and> (if be_size be a \<noteq> be_size be b0
                        then be_resize be b0 (be_size be a) = Inr b' else b' = b0)
                    \<and> (Pixelmatch a b' d0, None) \<in> set (new_events w w')))
            \<and> (length xs = length ys \<longrightarrow>
                 (b \<longleftrightarrow> (\<exists>k<length xs. \<exists>m a dimg.
                    pixel_diff be (xs ! k) (ys ! k) = Inr (m, a, dimg) \<and> m > 0))))"
proof -
  let ?d = "be_Path be output_dir"
  have rs: "\<exists>k a. k < length xs \<and> k < length ys
               \<and> be_convert be (xs ! k) = Inr a \<and> be_convert be (ys ! k) = Inr img
               \<and> s = be_size be a \<and> be_size be a \<noteq> be_size be img"
    if ev: "(Resize img s, x) \<in> set (new_events w w')" for img s x
  proof -
    from run_call_origin [OF run xs ys ev call_classes(2)] obtain k where
      k: "k < max (length xs) (length ys)"
      and pc: "page_call be ?d k (zip_longest xs ys ! k) (Resize img s)"
      by blast
    from page_call_Resize [OF pc] k have kk: "k < length xs \<and> k < length ys"
      by (auto simp: nth_zip_longest split: if_splits)
    with pc k have "page_call be ?d k (Some (xs ! k), Some (ys ! k)) (Resize img s)"
      by (simp add: nth_zip_longest del: page_call.simps)
    from page_call_Resize_paired [OF this] kk show ?thesis by blast
  qed
  have pm: "\<exists>k b0. k < length xs \<and> k < length ys
               \<and> be_convert be (xs ! k) = Inr a \<and> be_convert be (ys ! k) = Inr b0
               \<and> (if be_size be a \<noteq> be_size be b0
                   then be_resize be b0 (be_size be a) = Inr b' else b' = b0)
               \<and> be_new be (be_size be a) = Inr d0"
    if ev: "(Pixelmatch a b' d0, x) \<in> set (new_events w w')" for a b' d0 x
  proof -
    from run_pixelmatch_origin [OF run xs ys ev] obtain k where kk: "k < length xs" "k < length ys"
      and pc: "page_call be ?d k (Some (xs ! k), Some (ys ! k)) (Pixelmatch a b' d0)"
      by blast
    from page_call_Pixelmatch_paired [OF pc] kk show ?thesis by blast
  qed
  have ok: "(\<forall>k. k < length xs \<and> k < length ys \<longrightarrow>
               (Convert (xs ! k), None) \<in> set (new_events w w')
               \<and> (Convert (ys ! k), None) \<in> set (new_events w w')
               \<and> (\<exists>a b0 b' d0. be_convert be (xs ! k) = Inr a \<and> be_convert be (ys ! k) = Inr b0
                    \<and> (if be_size be a \<noteq> be_size be b0
                        then be_resize be b0 (be_size be a) = Inr b' else b' = b0)
                    \<and> (Pixelmatch a b' d0, None) \<in> set (new_events w w')))
            \<and> (length xs = length ys \<longrightarrow>
                 (b \<longleftrightarrow> (\<exists>k<length xs. \<exists>m a dimg.
                    pixel_diff be (xs ! k) (ys ! k) = Inr (m, a, dimg) \<and> m > 0)))"
    if r: "r = Inr b" for b
  proof (intro conjI allI impI)
    fix k assume kk: "k < length xs \<and> k < length ys"
    then have k: "k < max (length xs) (length ys)" by (simp add: less_max_iff_disj)
    from kk k have z: "zip_longest xs ys ! k = (Some (xs ! k), Some (ys ! k))"
      by (simp add: nth_zip_longest)
    from run_page [OF run [unfolded r] xs ys k] z
    have c: "(Convert (xs ! k), None) \<in> set (new_events w w')"
      "(Convert (ys ! k), None) \<in> set (new_events w w')"
      and "\<exists>a b' d0. (Pixelmatch a b' d0, None) \<in> set (new_events w w')
             \<and> page_call be ?d k (Some (xs ! k), Some (ys ! k)) (Pixelmatch a b' d0)"
      by (auto simp del: page_call.simps)
    then obtain a b' d0 where ev: "(Pixelmatch a b' d0, None) \<in> set (new_events w w')"
      and pc: "page_call be ?d k (Some (xs ! k), Some (ys ! k)) (Pixelmatch a b' d0)"
      by blast
    from c show "(Convert (xs ! k), None) \<in> set (new_events w w')"
      and "(Convert (ys ! k), None) \<in> set (new_events w w')" by simp_all
    from page_call_Pixelmatch_paired [OF pc] ev
    show "\<exists>a b0 b' d0. be_convert be (xs ! k) = Inr a \<and> be_convert be (ys ! k) = Inr b0
                    \<and> (if be_size be a \<noteq> be_size be b0
                        then be_resize be b0 (be_size be a) = Inr b' else b' = b0)
                    \<and> (Pixelmatch a b' d0, None) \<in> set (new_events w w')"
      by blast
  next
    assume eq: "length xs = length ys"
    from run_result [OF run [unfolded r] xs ys] eq
    show "b \<longleftrightarrow> (\<exists>k<length xs. \<exists>m a dimg.
        pixel_diff be (xs ! k) (ys ! k) = Inr (m, a, dimg) \<and> m > 0)"
      by auto
  qed
  from rs pm ok show ?thesis by blast
qed

theorem paired_pages_prepared_witness:
  "be_convert_from_path example_backend ''a.pdf'' = Inr [1, 2, 3]
   \<and> be_convert_from_path example_backend ''b.pdf'' = Inr [1, 4]
   \<and> (Resize 4 (10, 10), None) \<in> set (new_events example_world
        (snd (compare_pdf_pages example_backend ''a.pdf'' ''b.pdf'' ''out'' example_world)))
   \<and> (\<exists>k a. k < length [1, 2, 3 :: nat] \<and> k < length [1, 4 :: nat]
         \<and> be_convert example_backend ([1, 2, 3] ! k) = Inr a
         \<and> be_convert example_backend ([1, 4] ! k) = Inr 4
         \<and> (10, 10) = be_size example_backend a
         \<and> be_size example_backend a \<noteq> be_size example_backend 4)"
proof -
  have ev: "(Resize 4 (10, 10), None) \<in> set (new_events example_world
        (snd (compare_pdf_pages example_backend ''a.pdf'' ''b.pdf'' ''out'' example_world)))"
    by (simp add: example_run new_events_def)
  note t = paired_pages_prepared [OF example_run_snd example_pages(1) example_pages(2)]
  from t [THEN conjunct1, THEN spec, THEN spec, THEN spec, THEN mp, OF ev] ev
  show ?thesis by (simp only: example_pages simp_thms)
qed

section \<open>The files a run writes\<close>

lemma run_dirs:
  assumes run: "compare_pdf_pages be file1 file2 output_dir w = (Inr b, w')"
  shows "dirs w' = dirs w \<union> set (prefixes (be_Path be output_dir))"
proof -
  from run_success [OF run] obtain xs ys where
    lp: "compare_loop be (be_Path be output_dir) 0 (zip_longest xs ys) (length xs \<noteq> length ys)
       (start_world file1 file2 (be_Path be output_dir) (length xs) (length ys) w) = (Inr b, w')"
    by blast
  from loop_any [OF lp] show ?thesis by simp
qed

lemma run_files_frame:
  assumes run: "compare_pdf_pages be file1 file2 output_dir w = (Inr b, w')"
    and xs: "be_convert_from_path be file1 = Inr xs"
    and ys: "be_convert_from_path be file2 = Inr ys"
    and p: "\<forall>i<max (length xs) (length ys). p \<noteq> be_Path be output_dir @ [diff_page i]"
  shows "files w' p = files w p"
proof -
  note lp = run_loop_success(1) [OF run xs ys]
  from loop_any [OF lp] p show ?thesis by simp
qed

lemma run_save_origin:
  assumes run: "compare_pdf_pages be file1 file2 output_dir w = (r, w')"
    and xs: "be_convert_from_path be file1 = Inr xs"
    and ys: "be_convert_from_path be file2 = Inr ys"
    and ev: "(Save h p, x) \<in> set (new_events w w')"
  shows "\<exists>k<max (length xs) (length ys). p = be_Path be output_dir @ [diff_page k]
           \<and> diff_result be (zip_longest xs ys ! k) = Inr (Some h)"
proof -
  from run_call_origin [OF run xs ys ev call_classes(3)] obtain k where
    "k < max (length xs) (length ys)"
    "page_call be (be_Path be output_dir) k (zip_longest xs ys ! k) (Save h p)"
    by blast
  with page_call_Save [of be "be_Path be output_dir" k "zip_longest xs ys ! k" h p]
  show ?thesis by blast
qed

text \<open>
  Claim C6, as the code has it. In a run that returns, the file
  \<^verbatim>\<open>diff_page_{i+1}.png\<close> of the output directory is written exactly for the non-identical
  pages \<open>i\<close>: it then holds the page that exists when the counterpart is missing and the
  first image with the overlay composited onto it when the mismatch count is positive
  (\<open>diff_result\<close>), and for an identical page nothing is saved and the file is as it was.
  No other file is saved or changed. The directories change too: the output directory
  and its parents are added to them, and nothing else.
\<close>

theorem files_written:
  assumes run: "compare_pdf_pages be file1 file2 output_dir w = (Inr b, w')"
    and xs: "be_convert_from_path be file1 = Inr xs"
    and ys: "be_convert_from_path be file2 = Inr ys"
  shows "dirs w' = dirs w \<union> set (prefixes (be_Path be output_dir))
       \<and> (\<forall>i<max (length xs) (length ys).
            \<exists>res. diff_result be (zip_longest xs ys ! i) = Inr res
              \<and> files w' (be_Path be output_dir @ [diff_page i]) =
                   (case res of None \<Rightarrow> files w (be_Path be output_dir @ [diff_page i])
                    | Some h \<Rightarrow> Some h)
              \<and> (\<forall>h. res = Some h \<longrightarrow>
                   (Save h (be_Path be output_dir @ [diff_page i]), None) \<in> set (new_events w w'))
              \<and> (res = None \<longrightarrow>
                   (\<forall>h x. (Save h (be_Path be output_dir @ [diff_page i]), x)
                      \<notin> set (new_events w w'))))
       \<and> (\<forall>p. (\<forall>i<max (length xs) (length ys). p \<noteq> be_Path be output_dir @ [diff_page i]) \<longrightarrow>
            files w' p = files w p \<and> (\<forall>h x. (Save h p, x) \<notin> set (new_events w w')))"
proof -
  let ?d = "be_Path be output_dir"
  have pages: "\<exists>res. diff_result be (zip_longest xs ys ! i) = Inr res
              \<and> files w' (?d @ [diff_page i]) =
                   (case res of None \<Rightarrow> files w (?d @ [diff_page i]) | Some h \<Rightarrow> Some h)
              \<and> (\<forall>h. res = Some h \<longrightarrow>
                   (Save h (?d @ [diff_page i]), None) \<in> set (new_events w w'))
              \<and> (res = None \<longrightarrow>
                   (\<forall>h x. (Save h (?d @ [diff_page i]), x) \<notin> set (new_events w w')))"
    if i: "i < max (length xs) (length ys)" for i
  proof -
    from run_page [OF run xs ys i] obtain res where
      s: "diff_result be (zip_longest xs ys ! i) = Inr res"
        "files w' (?d @ [diff_page i]) =
            (case res of None \<Rightarrow> files w (?d @ [diff_page i]) | Some h \<Rightarrow> Some h)"
        "\<forall>h. res = Some h \<longrightarrow> (Save h (?d @ [diff_page i]), None) \<in> set (new_events w w')"
      by (elim exE conjE) (rule that; assumption)
    have "res = None \<longrightarrow> (\<forall>h x. (Save h (?d @ [diff_page i]), x) \<notin> set (new_events w w'))"
    proof (intro impI allI notI)
      fix h x assume n: "res = None"
        and ev: "(Save h (?d @ [diff_page i]), x) \<in> set (new_events w w')"
      from run_save_origin [OF run xs ys ev] s(1) n show False by auto
    qed
    with s show ?thesis by (intro exI [of _ res] conjI)
  qed
  have others: "files w' p = files w p \<and> (\<forall>h x. (Save h p, x) \<notin> set (new_events w w'))"
    if p: "\<forall>i<max (length xs) (length ys). p \<noteq> ?d @ [diff_page i]" for p
  proof
    from run_files_frame [OF run xs ys p] show "files w' p = files w p" .
    show "\<forall>h x. (Save h p, x) \<notin> set (new_events w w')"
    proof (intro allI notI)
      fix h x assume "(Save h p, x) \<in> set (new_events w w')"
      from run_save_origin [OF run xs ys this] p show False by blast
    qed
  qed
  from run_dirs [OF run] pages others show ?thesis by blast
qed

theorem files_written_witness:
  "be_convert_from_path example_backend ''a.pdf'' = Inr [1, 2, 3]
   \<and> be_convert_from_path example_backend ''b.pdf'' = Inr [1, 4]
   \<and> dirs (snd (compare_pdf_pages example_backend ''a.pdf'' ''b.pdf'' ''out'' example_world))
       = dirs example_world \<union> set (prefixes (be_Path example_backend ''out''))"
  using files_written [OF example_run_snd example_pages(1) example_pages(2), THEN conjunct1]
  by (simp only: example_pages simp_thms)

text \<open>
  Claim C6 as stated says that nothing else in the file system is touched. Comparing
  \<^verbatim>\<open>a.pdf\<close> with itself, every page is identical: the run returns false and no file is
  written, but the file system is not what it was, since the output directory has been
  made.
\<close>

theorem files_written_counterexample:
  "fst (compare_pdf_pages example_backend ''a.pdf'' ''a.pdf'' ''out'' example_world) = Inr False
   \<and> files (snd (compare_pdf_pages example_backend ''a.pdf'' ''a.pdf'' ''out'' example_world))
       = files example_world
   \<and> [''out''] \<in> dirs (snd (compare_pdf_pages example_backend ''a.pdf'' ''a.pdf'' ''out''
         example_world))
   \<and> [''out''] \<notin> dirs example_world"
  by (simp add: run_defs)

section \<open>Running the comparison again\<close>

lemma prefix_not_longer: "q \<in> set (prefixes d) \<Longrightarrow> q \<noteq> d @ [x]"
  by (auto simp: in_set_prefixes dest: prefix_length_le)

lemma run_again:
  assumes run: "compare_pdf_pages be file1 file2 output_dir w = (Inr b, w1)"
  shows "\<exists>w2. compare_pdf_pages be file1 file2 output_dir w1 = (Inr b, w2)
           \<and> dirs w2 = dirs w1 \<and> files w2 = files w1"
proof -
  let ?d = "be_Path be output_dir"
  from run_success [OF run] obtain xs ys where
    xs: "be_convert_from_path be file1 = Inr xs" and ys: "be_convert_from_path be file2 = Inr ys"
    and ok: "\<forall>q \<in> set (prefixes ?d). files w q = None"
    by blast
  let ?w0 = "start_world file1 file2 ?d (length xs) (length ys) w"
  let ?u0 = "start_world file1 file2 ?d (length xs) (length ys) w1"
  let ?prs = "zip_longest xs ys"
  note lp = run_loop_success(1) [OF run xs ys]
  note ls = loop_success [OF lp]
  from run_dirs [OF run] have d1: "dirs w1 = dirs w \<union> set (prefixes ?d)" .
  then have du: "dirs ?u0 = dirs ?w0" by auto
  have ok1: "\<forall>q \<in> set (prefixes ?d). files w1 q = None"
  proof
    fix q assume q: "q \<in> set (prefixes ?d)"
    then have "\<forall>i<max (length xs) (length ys). q \<noteq> ?d @ [diff_page i]"
      by (simp add: prefix_not_longer)
    from run_files_frame [OF run xs ys this] ok q show "files w1 q = None" by simp
  qed
  have pre: "\<forall>k<length ?prs. \<exists>res. diff_result be (?prs ! k) = Inr res
       \<and> (res \<noteq> None \<longrightarrow> ?d \<in> dirs ?u0 \<and> ?d @ [diff_page (0 + k)] \<notin> dirs ?u0)"
  proof (intro allI impI)
    fix k assume k: "k < length ?prs"
    from ls [THEN conjunct2, THEN spec, THEN mp, OF k] obtain res where
      "diff_result be (?prs ! k) = Inr res"
      "\<forall>h. res = Some h \<longrightarrow> ?d \<in> dirs ?w0 \<and> ?d @ [diff_page (0 + k)] \<notin> dirs ?w0
              \<and> (Save h (?d @ [diff_page (0 + k)]), None) \<in> set (new_events ?w0 w1)"
      by (elim exE conjE) (rule that; assumption)
    then show "\<exists>res. diff_result be (?prs ! k) = Inr res
       \<and> (res \<noteq> None \<longrightarrow> ?d \<in> dirs ?u0 \<and> ?d @ [diff_page (0 + k)] \<notin> dirs ?u0)"
      unfolding du by (intro exI [of _ res]) auto
  qed
  from loop_rerun [OF pre] obtain b2 w2 where
    lp2: "compare_loop be ?d 0 ?prs (length xs \<noteq> length ys) ?u0 = (Inr b2, w2)"
    by blast
  note ls2 = loop_success [OF lp2]
  from ls [THEN conjunct1] ls2 [THEN conjunct1] have b2: "b2 = b" by simp
  have run2: "compare_pdf_pages be file1 file2 output_dir w1 = (Inr b, w2)"
    using xs ys ok1 lp2 b2
    by (cases "length xs = length ys")
       (simp_all add: compare_pdf_pages_def convert_from_path_def mkdir_cases seq_def print_ascii
          ext_def ret_def raised_def start_world_def)
  from run_dirs [OF run2] d1 have dirs2: "dirs w2 = dirs w1" by auto
  have "files w2 p = files w1 p" for p
  proof (cases "\<exists>i<max (length xs) (length ys). p = ?d @ [diff_page i]")
    case False
    then have "\<forall>i<max (length xs) (length ys). p \<noteq> ?d @ [diff_page i]" by blast
    from run_files_frame [OF run2 xs ys this] show ?thesis .
  next
    case True
    then obtain i where i: "i < max (length xs) (length ys)" and p: "p = ?d @ [diff_page i]"
      by blast
    from run_page [OF run xs ys i] obtain res where
      r1: "diff_result be (?prs ! i) = Inr res"
        "files w1 (?d @ [diff_page i]) =
            (case res of None \<Rightarrow> files w (?d @ [diff_page i]) | Some h \<Rightarrow> Some h)"
      by (elim exE conjE) (rule that; assumption)
    from run_page [OF run2 xs ys i] obtain res' where
      r2: "diff_result be (?prs ! i) = Inr res'"
        "files w2 (?d @ [diff_page i]) =
            (case res' of None \<Rightarrow> files w1 (?d @ [diff_page i]) | Some h \<Rightarrow> Some h)"
      by (elim exE conjE) (rule that; assumption)
    from r1 r2 p show ?thesis by (cases res) auto
  qed
  then have "files w2 = files w1" by (rule ext)
  with run2 dirs2 show ?thesis by blast
qed

text \<open>
  Claim C8. With a backend that is a function of its arguments (deterministic
  rasterization and diffing) and inputs that stay the same, the comparison is
  deterministic and idempotent: after a run that returns, a second run with the same
  arguments returns the same boolean and leaves the directories and all files as the
  first run left them; and a run that returns from any other state of the file system
  returns the same boolean and ends with the same content in every file the first run
  has saved.
\<close>

theorem compare_deterministic:
  assumes run: "compare_pdf_pages be file1 file2 output_dir w = (Inr b, w1)"
  shows "(\<exists>w2. compare_pdf_pages be file1 file2 output_dir w1 = (Inr b, w2)
            \<and> dirs w2 = dirs w1 \<and> files w2 = files w1)
       \<and> (\<forall>u b' u1. compare_pdf_pages be file1 file2 output_dir u = (Inr b', u1) \<longrightarrow>
            b' = b
            \<and> (\<forall>h p x. (Save h p, x) \<in> set (new_events w w1) \<longrightarrow>
                 files w1 p = Some h \<and> files u1 p = Some h))"
proof -
  let ?d = "be_Path be output_dir"
  from run_success [OF run] obtain xs ys where
    xs: "be_convert_from_path be file1 = Inr xs" and ys: "be_convert_from_path be file2 = Inr ys"
    by blast
  have other: "b' = b \<and> (\<forall>h p x. (Save h p, x) \<in> set (new_events w w1) \<longrightarrow>
                 files w1 p = Some h \<and> files u1 p = Some h)"
    if run': "compare_pdf_pages be file1 file2 output_dir u = (Inr b', u1)" for u b' u1
  proof
    from run_result [OF run xs ys] run_result [OF run' xs ys] show "b' = b" by simp
    show "\<forall>h p x. (Save h p, x) \<in> set (new_events w w1) \<longrightarrow>
                 files w1 p = Some h \<and> files u1 p = Some h"
    proof (intro allI impI)
      fix h p x assume ev: "(Save h p, x) \<in> set (new_events w w1)"
      from run_save_origin [OF run xs ys ev] obtain k where
        k: "k < max (length xs) (length ys)" and p: "p = ?d @ [diff_page k]"
        and res: "diff_result be (zip_longest xs ys ! k) = Inr (Some h)"
        by blast
      from run_page [OF run xs ys k] res p have "files w1 p = Some h" by auto
      moreover from run_page [OF run' xs ys k] res p have "files u1 p = Some h" by auto
      ultimately show "files w1 p = Some h \<and> files u1 p = Some h" ..
    qed
  qed
  from run_again [OF run] other show ?thesis by blast
qed

theorem compare_deterministic_witness:
  "\<exists>w2. compare_pdf_pages example_backend ''a.pdf'' ''b.pdf'' ''out''
            (snd (compare_pdf_pages example_backend ''a.pdf'' ''b.pdf'' ''out'' example_world))
          = (Inr True, w2)
        \<and> files w2 = files (snd (compare_pdf_pages example_backend ''a.pdf'' ''b.pdf'' ''out''
             example_world))"
  using compare_deterministic [OF example_run_snd, THEN conjunct1] by blast

end
